theory Spec2Isabelle
  imports Main
begin

section \<open>Page rendering with an error-page cascade (render/render.go)\<close>

text \<open>
  The theory embeds the four public functions of \<^verbatim>\<open>render/render.go\<close>:
  \<^verbatim>\<open>Render\<close>, \<^verbatim>\<open>RenderPage\<close>, \<^verbatim>\<open>RenderStandalone\<close> and \<^verbatim>\<open>RenderError\<close>.
  The package-level state they read (the readiness flag, the two template sets, the
  configuration) and the unexported helpers they call (\<^verbatim>\<open>parsePath\<close>,
  \<^verbatim>\<open>pathsToTemplates\<close>, \<^verbatim>\<open>renderAt\<close>, \<^verbatim>\<open>ErrorCode\<close>) live in other files of the
  package; they are the fields of an environment record that every function takes.
\<close>

subsection \<open>Values of the Go standard library\<close>

text \<open>
  A \<^verbatim>\<open>[]byte\<close> and a \<^verbatim>\<open>string\<close> are byte lists. A slice may be \<^verbatim>\<open>nil\<close>: a
  \<^verbatim>\<open>[]byte\<close> result is a \<open>string option\<close> with \<open>None\<close> for \<^verbatim>\<open>nil\<close>. The conversion
  \<^verbatim>\<open>string(bytes)\<close> and \<^verbatim>\<open>len(bytes)\<close> read a nil slice as the empty one.
\<close>

definition string_of :: "string option \<Rightarrow> string" where
  "string_of b = (case b of None \<Rightarrow> [] | Some s \<Rightarrow> s)"

definition len :: "string option \<Rightarrow> nat" where
  "len b = length (string_of b)"

text \<open>
  \<^verbatim>\<open>strings.TrimSpace\<close> removes the leading and the trailing white-space runes of
  Unicode. On the UTF-8 bytes of a string these are the six ASCII bytes and the
  encodings of U+0085, U+00A0, U+1680, U+2000 to U+200A, U+2028, U+2029, U+202F, U+205F
  and U+3000; any other byte sequence decodes to a rune that is no white space.
\<close>

definition spaceRunes :: "string list" where
  "spaceRunes =
     [[CHR 0x09], [CHR 0x0A], [CHR 0x0B], [CHR 0x0C], [CHR 0x0D], [CHR 0x20],
      [CHR 0xC2, CHR 0x85], [CHR 0xC2, CHR 0xA0], [CHR 0xE1, CHR 0x9A, CHR 0x80],
      [CHR 0xE2, CHR 0x80, CHR 0x80], [CHR 0xE2, CHR 0x80, CHR 0x81],
      [CHR 0xE2, CHR 0x80, CHR 0x82], [CHR 0xE2, CHR 0x80, CHR 0x83],
      [CHR 0xE2, CHR 0x80, CHR 0x84], [CHR 0xE2, CHR 0x80, CHR 0x85],
      [CHR 0xE2, CHR 0x80, CHR 0x86], [CHR 0xE2, CHR 0x80, CHR 0x87],
      [CHR 0xE2, CHR 0x80, CHR 0x88], [CHR 0xE2, CHR 0x80, CHR 0x89],
      [CHR 0xE2, CHR 0x80, CHR 0x8A], [CHR 0xE2, CHR 0x80, CHR 0xA8],
      [CHR 0xE2, CHR 0x80, CHR 0xA9], [CHR 0xE2, CHR 0x80, CHR 0xAF],
      [CHR 0xE2, CHR 0x81, CHR 0x9F], [CHR 0xE3, CHR 0x80, CHR 0x80]]"

text \<open>The width in bytes of the rune of \<open>rs\<close> that \<open>s\<close> starts with, 0 when there is none.\<close>

fun runeWidth :: "string list \<Rightarrow> string \<Rightarrow> nat" where
  "runeWidth [] s = 0"
| "runeWidth (r # rs) s = (if take (length r) s = r then length r else runeWidth rs s)"

lemma runeWidth_le: "runeWidth rs s \<le> length s"
proof (induction rs)
  case Nil
  show ?case by simp
next
  case (Cons r rs)
  have "take (length r) s = r \<Longrightarrow> length r \<le> length s"
    by (metis length_take min.cobounded1)
  with Cons show ?case by simp
qed

function trimRunes :: "string list \<Rightarrow> string \<Rightarrow> string" where
  "trimRunes rs s =
     (if runeWidth rs s = 0 then s else trimRunes rs (drop (runeWidth rs s) s))"
  by pat_completeness auto
termination
proof (relation "measure (\<lambda>(rs, s). length s)")
  show "wf (measure (\<lambda>(rs, s). length s))" by simp
next
  fix rs :: "string list" and s :: string
  assume "runeWidth rs s \<noteq> 0"
  moreover have "runeWidth rs s \<le> length s" by (rule runeWidth_le)
  ultimately show "((rs, drop (runeWidth rs s) s), (rs, s)) \<in> measure (\<lambda>(rs, s). length s)"
    by simp
qed

declare trimRunes.simps [simp del]

text \<open>The trailing runes are the leading runes of the reversed string, reversed.\<close>

definition TrimSpace :: "string \<Rightarrow> string" where
  "TrimSpace s = rev (trimRunes (map rev spaceRunes) (rev (trimRunes spaceRunes s)))"

text \<open>\<^verbatim>\<open>strconv.Itoa\<close>: the decimal digits of an integer, with a minus sign below zero.\<close>

fun digits :: "nat \<Rightarrow> string" where
  "digits n =
     (if n < 10 then [''0123456789'' ! n]
      else digits (n div 10) @ [''0123456789'' ! (n mod 10)])"

declare digits.simps [simp del]

definition Itoa :: "int \<Rightarrow> string" where
  "Itoa i = (if i < 0 then CHR ''-'' # digits (nat (- i)) else digits (nat i))"

subsection \<open>The data bag and the environment\<close>

text \<open>
  The data bag is a \<^verbatim>\<open>map[string]interface{}\<close>. The only dynamic type the code tests
  for is \<^verbatim>\<open>template.HTML\<close> (a string type); every other value is \<open>Other\<close>. A Go map is a
  reference and may be \<^verbatim>\<open>nil\<close>: a function that writes to the bag returns the bag its
  caller holds afterwards, \<open>None\<close> for a nil map.
\<close>

datatype 'v val = HTML string | Other 'v

type_synonym 'v bag = "string \<rightharpoonup> 'v val"

text \<open>
  \<^verbatim>\<open>assertReady\<close> panics when the package is used before its setup: a call either dies
  with that panic (\<open>Fatal\<close>) or returns.
\<close>

datatype 'a outcome = Fatal | Returns 'a

text \<open>
  The environment. \<open>ready\<close> is what \<^verbatim>\<open>assertReady\<close> tests; \<open>Pages\<close> and \<open>Standalone\<close>
  are the two template sets (\<^verbatim>\<open>Lookup\<close> on a set is the application of the map);
  \<open>UltimateFailure\<close> and \<open>CodePath\<close> are the fields of \<^verbatim>\<open>conf\<close>; \<open>err404\<close> and
  \<open>err500ISE\<close> are the package's constants. \<open>parsePath\<close>, \<open>pathsToTemplates\<close>, \<open>renderAt\<close>
  and \<open>ErrorCode\<close> are the helpers, with the argument order of their calls; they read
  their arguments and write to none of them. An error is a
  value of the type \<open>'e\<close>, and an \<^verbatim>\<open>error\<close> result is an \<open>'e option\<close> with \<open>None\<close> for
  \<^verbatim>\<open>nil\<close>.
\<close>

record ('e, 'v, 't) env =
  ready :: bool
  Pages :: "string \<rightharpoonup> 't"
  Standalone :: "string \<rightharpoonup> 't"
  UltimateFailure :: "string option"
  CodePath :: "int \<rightharpoonup> string"
  err404 :: 'e
  err500ISE :: string
  parsePath :: "string \<Rightarrow> (string \<rightharpoonup> 't) \<Rightarrow> string \<times> 'e option"
  pathsToTemplates :: "string \<Rightarrow> string list"
  renderAt :: "string \<Rightarrow> 'v bag option \<Rightarrow> (string \<rightharpoonup> 't) \<Rightarrow> string option \<times> 'e option"
  ErrorCode :: "'e \<Rightarrow> int"

text \<open>
  Modelled from the spec: \<^verbatim>\<open>ErrorPath\<close> is declared in another file of the package.
  It classifies the error, takes the path that the configuration registers for the code
  and, when there is none, the decimal string of the code.
\<close>

definition ErrorPath :: "('e, 'v, 't) env \<Rightarrow> 'e \<Rightarrow> string" where
  "ErrorPath env e =
     (case CodePath env (ErrorCode env e) of
        Some p \<Rightarrow> p
      | None \<Rightarrow> Itoa (ErrorCode env e))"

subsection \<open>RenderPage\<close>

text \<open>
  The loop over the chain of templates. It stops at the first template that fails and
  returns the error with the bag as it is then; after a template that renders it stores
  the trimmed output under \<^verbatim>\<open>"content"\<close>.
\<close>

fun RenderPage_loop ::
  "('e, 'v, 't) env \<Rightarrow> string list \<Rightarrow> 'v bag \<Rightarrow> 'e option \<times> 'v bag" where
  "RenderPage_loop env [] data = (None, data)"
| "RenderPage_loop env (pt # paths) data =
     (case renderAt env pt (Some data) (Pages env) of
        (bytes, Some err) \<Rightarrow> (Some err, data)
      | (bytes, None) \<Rightarrow>
          RenderPage_loop env paths
            (data(''content'' \<mapsto> HTML (TrimSpace (string_of bytes)))))"

text \<open>
  \<^verbatim>\<open>html, _ := data["content"].(template.HTML)\<close>: the zero value, the empty string,
  when the key is absent or holds a value of another type.
\<close>

definition content_html :: "'v bag \<Rightarrow> string" where
  "content_html data = (case data ''content'' of Some (HTML html) \<Rightarrow> html | _ \<Rightarrow> [])"

text \<open>
  A nil bag is replaced by a fresh empty one, which the caller never sees: the third
  component of the result is the caller's bag after the call.
\<close>

definition RenderPage ::
  "('e, 'v, 't) env \<Rightarrow> string \<Rightarrow> 'v bag option \<Rightarrow>
     (string option \<times> 'e option \<times> 'v bag option) outcome" where
  "RenderPage env path data =
     (if \<not> ready env then Fatal
      else
        let data0 = (case data of None \<Rightarrow> Map.empty | Some m \<Rightarrow> m) in
        case parsePath env path (Pages env) of
          (path', Some err) \<Rightarrow> Returns (None, Some err, data)
        | (path', None) \<Rightarrow>
            (case RenderPage_loop env (pathsToTemplates env path') data0 of
               (Some err, data1) \<Rightarrow> Returns (None, Some err, map_option (\<lambda>_. data1) data)
             | (None, data1) \<Rightarrow>
                 Returns (Some (content_html data1), None, map_option (\<lambda>_. data1) data)))"

subsection \<open>RenderStandalone\<close>

definition RenderStandalone ::
  "('e, 'v, 't) env \<Rightarrow> string \<Rightarrow> 'v bag option \<Rightarrow> (string option \<times> 'e option) outcome" where
  "RenderStandalone env path data =
     (if \<not> ready env then Fatal
      else if Standalone env path = None then Returns (None, Some (err404 env))
      else Returns (renderAt env path data (Standalone env)))"

subsection \<open>RenderError\<close>

text \<open>
  The local variables of \<^verbatim>\<open>RenderError\<close> and the bag: the state of its loop.
  \<open>codes\<close> is the \<^verbatim>\<open>map[int]bool\<close> of the codes that have occurred, read as
  \<^verbatim>\<open>false\<close> at every key it does not hold.
\<close>

record ('e, 'v) cascade =
  err :: "'e option"
  lastErr :: "'e option"
  bytes :: "string option"
  codes :: "int \<Rightarrow> bool"
  data :: "'v bag option"

text \<open>The bytes of the branch for a second 500.\<close>

definition fallback :: "('e, 'v, 't) env \<Rightarrow> string option" where
  "fallback env =
     (if 0 < len (UltimateFailure env) then UltimateFailure env else Some (err500ISE env))"

text \<open>
  The control flow of one pass through a loop: go on with a new state, or leave the
  function with a result.
\<close>

datatype ('s, 'r) flow = is_Next: Next (next_state: 's) | Done 'r

text \<open>
  One pass: the test \<^verbatim>\<open>err != nil\<close> and the body. The function returns
  \<^verbatim>\<open>bytes\<close> and \<^verbatim>\<open>lastErr\<close>; the result holds the caller's bag as well. The call
  of \<^verbatim>\<open>log\<close> writes to the package's logger and touches none of the variables.
  Note the argument of \<^verbatim>\<open>RenderPage\<close>: the path of the error \<^verbatim>\<open>err\<close>, whatever
  \<^verbatim>\<open>code\<close> has become.
\<close>

definition RenderError_iter ::
  "('e, 'v, 't) env \<Rightarrow> ('e, 'v) cascade \<Rightarrow>
     (('e, 'v) cascade, (string option \<times> 'e option \<times> 'v bag option) outcome) flow" where
  "RenderError_iter env s =
     (case err s of
        None \<Rightarrow> Done (Returns (bytes s, lastErr s, data s))
      | Some e \<Rightarrow>
          let code = ErrorCode env e in
          if codes s code \<and> code = 500
          then Done (Returns (fallback env, Some e, data s))
          else
            let code' = (if codes s code then 500 else code) in
            (case RenderPage env (ErrorPath env e) (data s) of
               Fatal \<Rightarrow> Done Fatal
             | Returns (b, e', d') \<Rightarrow>
                 Next (s\<lparr>err := e', lastErr := Some e, bytes := b,
                          codes := (codes s)(code' := True), data := d'\<rparr>)))"

text \<open>The loop may run forever: not returning is the value \<open>None\<close>.\<close>

partial_function (option) RenderError_loop ::
  "('e, 'v, 't) env \<Rightarrow> ('e, 'v) cascade \<Rightarrow>
     (string option \<times> 'e option \<times> 'v bag option) outcome option" where
  "RenderError_loop env s =
     (case RenderError_iter env s of
        Done r \<Rightarrow> Some r
      | Next s' \<Rightarrow> RenderError_loop env s')"

definition cascade_start :: "'e option \<Rightarrow> 'v bag option \<Rightarrow> ('e, 'v) cascade" where
  "cascade_start e d =
     \<lparr>err = e, lastErr = None, bytes = None, codes = (\<lambda>_. False), data = d\<rparr>"

definition RenderError ::
  "('e, 'v, 't) env \<Rightarrow> 'e option \<Rightarrow> 'v bag option \<Rightarrow>
     (string option \<times> 'e option \<times> 'v bag option) outcome option" where
  "RenderError env e d = RenderError_loop env (cascade_start e d)"

text \<open>
  The first \<open>n\<close> passes of the loop: the result if the function returns within them,
  the state after them otherwise.
\<close>

fun RenderError_steps ::
  "nat \<Rightarrow> ('e, 'v, 't) env \<Rightarrow> ('e, 'v) cascade \<Rightarrow>
     (('e, 'v) cascade, (string option \<times> 'e option \<times> 'v bag option) outcome) flow" where
  "RenderError_steps 0 env s = Next s"
| "RenderError_steps (Suc n) env s =
     (case RenderError_iter env s of
        Done r \<Rightarrow> Done r
      | Next s' \<Rightarrow> RenderError_steps n env s')"

subsection \<open>Render\<close>

definition Render ::
  "('e, 'v, 't) env \<Rightarrow> string \<Rightarrow> 'v bag option \<Rightarrow>
     (string option \<times> 'e option \<times> 'v bag option) outcome option" where
  "Render env path d =
     (if \<not> ready env then Some Fatal
      else
        case RenderPage env path d of
          Fatal \<Rightarrow> Some Fatal
        | Returns (b, Some e, d') \<Rightarrow> RenderError env (Some e) d'
        | Returns (b, None, d') \<Rightarrow> Some (Returns (b, None, d')))"

subsection \<open>Sample sites\<close>

text \<open>
  Concrete environments, for running the functions. An error is \<open>NotFound\<close>, \<open>Internal\<close>
  or carries a code of its own; \<open>fault_code\<close> classifies them as the spec has the
  classifier do (404, 500 and the code carried).
\<close>

datatype fault = NotFound | Internal | Coded int

fun fault_code :: "fault \<Rightarrow> int" where
  "fault_code NotFound = 404"
| "fault_code Internal = 500"
| "fault_code (Coded n) = n"

text \<open>
  A template is what its execution does with the bag: \<open>static\<close> prints a fixed text,
  \<open>failing\<close> fails, \<open>enclosing\<close> prints the \<^verbatim>\<open>"content"\<close> of the bag between two
  fixed texts, as a layout does.
\<close>

type_synonym tmpl = "unit bag option \<Rightarrow> string option \<times> fault option"

definition static :: "string \<Rightarrow> tmpl" where
  "static s = (\<lambda>d. (Some s, None))"

definition failing :: "fault \<Rightarrow> tmpl" where
  "failing e = (\<lambda>d. (None, Some e))"

definition enclosing :: "string \<Rightarrow> string \<Rightarrow> tmpl" where
  "enclosing l r =
     (\<lambda>d. (Some (l @ content_html (case d of None \<Rightarrow> Map.empty | Some m \<Rightarrow> m) @ r), None))"

text \<open>
  The layouts around a page, innermost first, from the reversed path: the path cut
  before each of its slashes, and the root layout \<open>[]\<close> last.
\<close>

fun layouts :: "string \<Rightarrow> string list" where
  "layouts [] = [[]]"
| "layouts (c # cs) = (if c = CHR ''/'' then rev cs # layouts cs else layouts cs)"

text \<open>
  A site with the given pages and no standalone template, after its setup, with the
  default configuration. The helpers do what the spec says of them: \<open>parsePath\<close> refuses
  the empty path and a path with no template, \<open>pathsToTemplates\<close> lists the page and its
  layouts, \<open>renderAt\<close> fails with \<open>NotFound\<close> on a missing template and executes a
  template that is there.
\<close>

definition site :: "(string \<rightharpoonup> tmpl) \<Rightarrow> (fault, unit, tmpl) env" where
  "site pages =
     \<lparr>ready = True, Pages = pages, Standalone = Map.empty, UltimateFailure = None,
      CodePath = Map.empty, err404 = NotFound, err500ISE = ''Internal Server Error'',
      parsePath =
        (\<lambda>p temps. if p = [] \<or> temps p = None then (p, Some NotFound) else (p, None)),
      pathsToTemplates = (\<lambda>p. p # layouts (rev p)),
      renderAt =
        (\<lambda>p d temps. case temps p of None \<Rightarrow> (None, Some NotFound) | Some t \<Rightarrow> t d),
      ErrorCode = fault_code\<rparr>"

text \<open>Every error page but the last fails with an error of a code not seen before.\<close>

definition denied_site :: "(fault, unit, tmpl) env" where
  "denied_site = site
     [''404'' \<mapsto> failing (Coded 403), ''403'' \<mapsto> failing (Coded 402),
      ''402'' \<mapsto> failing (Coded 401), ''401'' \<mapsto> static ''denied'',
      [] \<mapsto> enclosing ''<html>'' ''</html>'']"

text \<open>No page for 500, and a page for 404 that fails when it runs.\<close>

definition broken_site :: "(fault, unit, tmpl) env" where
  "broken_site = site
     [''404'' \<mapsto> failing Internal, [] \<mapsto> enclosing ''<html>'' ''</html>'']"

text \<open>A page for 500 and none for 404.\<close>

definition oops_site :: "(fault, unit, tmpl) env" where
  "oops_site = site
     [''500'' \<mapsto> static ''oops'', [] \<mapsto> enclosing ''<html>'' ''</html>'']"

text \<open>An empty page for 404 under a root layout that prints the content and nothing else.\<close>

definition blank_site :: "(fault, unit, tmpl) env" where
  "blank_site = site [''404'' \<mapsto> static [], [] \<mapsto> enclosing [] []]"

text \<open>
  A page under a section layout that fails, a page under the root layout alone, and a
  page for 500 that shows the content it is given.
\<close>

definition docs_site :: "(fault, unit, tmpl) env" where
  "docs_site = site
     [''docs/intro'' \<mapsto> static '' hi '', ''docs'' \<mapsto> failing Internal,
      ''home'' \<mapsto> static ''welcome'', ''500'' \<mapsto> enclosing ''['' '']'',
      [] \<mapsto> enclosing ''<html>'' ''</html>'']"

text \<open>A page that shows the content it is given, followed by a mark.\<close>

definition notes_site :: "(fault, unit, tmpl) env" where
  "notes_site = site
     [''note'' \<mapsto> enclosing [] ''!'', [] \<mapsto> enclosing ''<p>'' ''</p>'']"

text \<open>
  The configuration sends every code to the one error page, and that page fails when
  it runs.
\<close>

definition errors_site :: "(fault, unit, tmpl) env" where
  "errors_site =
     (site [''error'' \<mapsto> failing Internal, [] \<mapsto> enclosing ''<html>'' ''</html>''])
       \<lparr>CodePath := (\<lambda>c. Some ''error'')\<rparr>"

text \<open>The site before its setup.\<close>

definition offline_site :: "(fault, unit, tmpl) env" where
  "offline_site = docs_site\<lparr>ready := False\<rparr>"

text \<open>The site with one standalone template and a configured last resort.\<close>

definition menu_site :: "(fault, unit, tmpl) env" where
  "menu_site =
     docs_site\<lparr>Standalone := [''$menu'' \<mapsto> static ''menu''],
               UltimateFailure := Some ''down''\<rparr>"

text \<open>
  A site with a page for every code above zero: the configuration sends the code \<open>c\<close>
  to the page whose name is \<open>c\<close> times the letter x. The page of a code above 600 fails
  with an error of the code below it, and every other page renders.
\<close>

definition countdown_site :: "(fault, unit, tmpl) env" where
  "countdown_site =
     (site (\<lambda>p. if p = [] then Some (enclosing ''<html>'' ''</html>'')
                 else if 600 < length p then Some (failing (Coded (int (length p) - 1)))
                 else Some (static ''ok'')))
       \<lparr>CodePath := (\<lambda>c. Some (replicate (nat c) (CHR ''x'')))\<rparr>"

text \<open>A page and a root layout whose template files have white space around their text.\<close>

definition padded_site :: "(fault, unit, tmpl) env" where
  "padded_site = site
     [''about'' \<mapsto> static '' hi \<newline>'',
      [] \<mapsto> enclosing ''\<newline><html>'' ''</html>\<newline>'']"

text \<open>
  Two sections whose layouts fail, with different errors. The configuration sends the
  code 403 to a page of the second section; the page for 500 shows the content it is
  given.
\<close>

definition help_site :: "(fault, unit, tmpl) env" where
  "help_site =
     (site
        [''docs/intro'' \<mapsto> static '' hi '', ''docs'' \<mapsto> failing (Coded 403),
         ''help/denied'' \<mapsto> static ''denied'', ''help'' \<mapsto> failing Internal,
         ''500'' \<mapsto> enclosing ''['' '']'', [] \<mapsto> enclosing ''<html>'' ''</html>''])
       \<lparr>CodePath := [403 \<mapsto> ''help/denied'']\<rparr>"


lemmas site_defs =
  site_def static_def failing_def enclosing_def content_html_def string_of_def

section \<open>Properties\<close>

subsection \<open>Evaluation and the loops\<close>

lemma Itoa_codes:
  "Itoa 401 = ''401''" "Itoa 402 = ''402''" "Itoa 403 = ''403''"
  "Itoa 404 = ''404''" "Itoa 500 = ''500''"
  by code_simp+

lemma TrimSpace_texts:
  "TrimSpace [] = []"
  "TrimSpace '' hi '' = ''hi''"
  "TrimSpace ''!'' = ''!''"
  "TrimSpace ''[]'' = ''[]''"
  "TrimSpace ''[hi]'' = ''[hi]''"
  "TrimSpace ''oops'' = ''oops''"
  "TrimSpace ''denied'' = ''denied''"
  "TrimSpace ''welcome'' = ''welcome''"
  "TrimSpace ''<p>!</p>'' = ''<p>!</p>''"
  "TrimSpace ''<p>!</p>!'' = ''<p>!</p>!''"
  "TrimSpace ''<p><p>!</p>!</p>'' = ''<p><p>!</p>!</p>''"
  "TrimSpace ''<html>[]</html>'' = ''<html>[]</html>''"
  "TrimSpace ''<html>[hi]</html>'' = ''<html>[hi]</html>''"
  "TrimSpace ''<html>oops</html>'' = ''<html>oops</html>''"
  "TrimSpace ''<html>denied</html>'' = ''<html>denied</html>''"
  "TrimSpace ''<html>welcome</html>'' = ''<html>welcome</html>''"
  by code_simp+

lemma TrimSpace_ok:
  "TrimSpace ''ok'' = ''ok''"
  "TrimSpace ''<html>ok</html>'' = ''<html>ok</html>''"
  by code_simp+

lemma TrimSpace_padded:
  "TrimSpace '' hi \<newline>'' = ''hi''"
  "TrimSpace ''\<newline><html>hi</html>\<newline>'' = ''<html>hi</html>''"
  by code_simp+

lemma TrimSpace_denied:
  "TrimSpace ''[denied]'' = ''[denied]''"
  "TrimSpace ''<html>[denied]</html>'' = ''<html>[denied]</html>''"
  by code_simp+

lemma RenderPage_loop_append:
  "RenderPage_loop env (xs @ ys) m =
     (case RenderPage_loop env xs m of
        (Some e, m1) \<Rightarrow> (Some e, m1)
      | (None, m1) \<Rightarrow> RenderPage_loop env ys m1)"
  by (induction xs arbitrary: m) (auto split: prod.splits option.splits)

lemma RenderPage_loop_cut:
  assumes "RenderPage_loop env (pre @ pt # post) m = (None, m')"
  shows "\<exists>m1 b. RenderPage_loop env pre m = (None, m1) \<and>
           renderAt env pt (Some m1) (Pages env) = (b, None) \<and>
           RenderPage_loop env (pre @ [pt]) m =
             (None, m1(''content'' \<mapsto> HTML (TrimSpace (string_of b))))"
proof (cases "RenderPage_loop env pre m")
  case (Pair r m1)
  with assms have r: "r = None"
    by (cases r) (simp_all add: RenderPage_loop_append)
  with assms Pair have rest: "RenderPage_loop env (pt # post) m1 = (None, m')"
    by (simp add: RenderPage_loop_append)
  obtain b f where ra: "renderAt env pt (Some m1) (Pages env) = (b, f)"
    by (cases "renderAt env pt (Some m1) (Pages env)")
  with rest have f: "f = None"
    by (cases f) simp_all
  from Pair r ra f show ?thesis
    by (simp add: RenderPage_loop_append)
qed

text \<open>The loop returns a result exactly when some number of passes reaches it.\<close>

lemma steps_Done_loop:
  "RenderError_steps n env s = Done r \<Longrightarrow> RenderError_loop env s = Some r"
proof (induction n arbitrary: s)
  case 0
  then show ?case by simp
next
  case (Suc n)
  then show ?case
    by (subst RenderError_loop.simps) (auto split: flow.splits)
qed

lemma steps_Next_loop:
  "RenderError_steps n env s = Next s' \<Longrightarrow> RenderError_loop env s = RenderError_loop env s'"
proof (induction n arbitrary: s)
  case 0
  then show ?case by simp
next
  case (Suc n)
  then show ?case
    by (subst RenderError_loop.simps) (auto split: flow.splits)
qed

lemma loop_Some_steps:
  assumes "RenderError_loop env s = Some r"
  shows "\<exists>n. RenderError_steps n env s = Done r"
  using assms
proof (induction env s r
    rule: RenderError_loop.raw_induct[rotated 1, consumes 1, case_names pass])
  case (pass loop env s r)
  show ?case
  proof (cases "RenderError_iter env s")
    case (Next s')
    with pass obtain n where "RenderError_steps n env s' = Done r" by fastforce
    with Next have "RenderError_steps (Suc n) env s = Done r" by simp
    then show ?thesis ..
  next
    case (Done r')
    with pass have "RenderError_steps (Suc 0) env s = Done r" by simp
    then show ?thesis ..
  qed
qed

lemma loop_None:
  assumes "\<forall>n. is_Next (RenderError_steps n env s)"
  shows "RenderError_loop env s = None"
proof (cases "RenderError_loop env s")
  case None
  then show ?thesis .
next
  case (Some r)
  then obtain n where "RenderError_steps n env s = Done r"
    using loop_Some_steps by blast
  with assms show ?thesis by (metis flow.disc(2))
qed

text \<open>After the setup \<^verbatim>\<open>RenderPage\<close> returns; a pass that goes on had an error.\<close>

lemma RenderPage_ready:
  "ready env \<Longrightarrow> \<exists>b e d'. RenderPage env path d = Returns (b, e, d')"
  by (simp add: RenderPage_def Let_def split: prod.splits option.splits)

lemma RenderError_iter_pending:
  "RenderError_iter env s = Next s' \<Longrightarrow> \<exists>e. err s = Some e"
  by (cases "err s") (simp_all add: RenderError_iter_def)

subsection \<open>The second 500 (C4)\<close>

text \<open>
  C4. When the current error of the cascade classifies to 500 and 500 has been seen, the
  loop ends in that pass: \<^verbatim>\<open>RenderError\<close> returns the configured
  \<^verbatim>\<open>UltimateFailure\<close> bytes if there are any, the built-in message otherwise, and the
  current error as \<^verbatim>\<open>lastErr\<close>.
\<close>

theorem RenderError_double_500:
  assumes "err s = Some e" and "ErrorCode env e = 500" and "codes s 500"
  shows "RenderError_iter env s =
           Done (Returns (if 0 < len (UltimateFailure env) then UltimateFailure env
                          else Some (err500ISE env), Some e, data s)) \<and>
         RenderError_loop env s =
           Some (Returns (if 0 < len (UltimateFailure env) then UltimateFailure env
                          else Some (err500ISE env), Some e, data s))"
  using assms
  by (subst RenderError_loop.simps) (simp add: RenderError_iter_def fallback_def)

text \<open>
  A run: on the site with a last resort, after a 404 and a 500 have been seen; and on
  the site without one, where the built-in message is returned.
\<close>

theorem RenderError_double_500_witness:
  "err \<lparr>err = Some Internal, lastErr = Some NotFound, bytes = None,
        codes = (\<lambda>_. False)(404 := True, 500 := True), data = None\<rparr> = Some Internal \<and>
   ErrorCode menu_site Internal = 500 \<and>
   codes \<lparr>err = Some Internal, lastErr = Some NotFound, bytes = None,
          codes = (\<lambda>_. False)(404 := True, 500 := True), data = None\<rparr> 500 \<and>
   RenderError_loop menu_site
     \<lparr>err = Some Internal, lastErr = Some NotFound, bytes = None,
      codes = (\<lambda>_. False)(404 := True, 500 := True), data = None\<rparr> =
     Some (Returns (Some ''down'', Some Internal, None)) \<and>
   RenderError_loop docs_site
     \<lparr>err = Some Internal, lastErr = Some NotFound, bytes = None,
      codes = (\<lambda>_. False)(404 := True, 500 := True), data = None\<rparr> =
     Some (Returns (Some ''Internal Server Error'', Some Internal, None))"
  using
    RenderError_double_500 [of "\<lparr>err = Some Internal, lastErr = Some NotFound, bytes = None,
      codes = (\<lambda>_. False)(404 := True, 500 := True), data = None\<rparr>" Internal menu_site]
    RenderError_double_500 [of "\<lparr>err = Some Internal, lastErr = Some NotFound, bytes = None,
      codes = (\<lambda>_. False)(404 := True, 500 := True), data = None\<rparr>" Internal docs_site]
  by (simp add: menu_site_def docs_site_def site_def len_def string_of_def)

subsection \<open>The content key (C5)\<close>

text \<open>
  What \<open>TrimSpace\<close> returns: the string is some white-space runes, the result, and some
  white-space runes; the result does not start with a white-space rune and does not end
  with one.
\<close>

lemma runeWidth_rune:
  "runeWidth rs s \<noteq> 0 \<Longrightarrow> take (runeWidth rs s) s \<in> set rs"
  by (induction rs) (auto split: if_splits)

lemma trimRunes_done: "runeWidth rs (trimRunes rs s) = 0"
proof (induction rs s rule: trimRunes.induct)
  case (1 rs s)
  show ?case
  proof (cases "runeWidth rs s = 0")
    case True
    then show ?thesis by (subst trimRunes.simps) simp
  next
    case False
    with "1" show ?thesis by (subst trimRunes.simps) simp
  qed
qed

lemma trimRunes_split: "\<exists>ws. set ws \<subseteq> set rs \<and> s = concat ws @ trimRunes rs s"
proof (induction rs s rule: trimRunes.induct)
  case (1 rs s)
  show ?case
  proof (cases "runeWidth rs s = 0")
    case True
    then have "set [] \<subseteq> set rs \<and> s = concat [] @ trimRunes rs s"
      by (subst trimRunes.simps) simp
    then show ?thesis ..
  next
    case False
    let ?w = "take (runeWidth rs s) s"
    from False "1" obtain ws
      where ws: "set ws \<subseteq> set rs"
        "drop (runeWidth rs s) s = concat ws @ trimRunes rs (drop (runeWidth rs s) s)"
      by blast
    from False have "?w \<in> set rs"
      by (rule runeWidth_rune)
    with ws(1) have "set (?w # ws) \<subseteq> set rs"
      by simp
    moreover from False have "trimRunes rs s = trimRunes rs (drop (runeWidth rs s) s)"
      by (subst trimRunes.simps) simp
    with ws(2) have "s = concat (?w # ws) @ trimRunes rs s"
      by (metis append.assoc append_take_drop_id concat.simps(2))
    ultimately show ?thesis by blast
  qed
qed

lemma runeWidth_front:
  "runeWidth rs (t @ x) = 0 \<Longrightarrow> [] \<notin> set rs \<Longrightarrow> runeWidth rs t = 0"
proof (induction rs)
  case Nil
  show ?case by simp
next
  case (Cons r rs)
  from Cons.prems have no: "take (length r) (t @ x) \<noteq> r" and rest: "runeWidth rs (t @ x) = 0"
    by (auto split: if_splits)
  have "take (length r) t \<noteq> r"
  proof
    assume m: "take (length r) t = r"
    then have "length r \<le> length t"
      by (metis length_take min.cobounded1)
    with m have "take (length r) (t @ x) = r"
      by simp
    with no show False ..
  qed
  moreover from rest Cons.prems(2) have "runeWidth rs t = 0"
    by (simp add: Cons.IH)
  ultimately show ?case by simp
qed

lemma TrimSpace_trims:
  "\<exists>l r. set l \<subseteq> set spaceRunes \<and> set r \<subseteq> set spaceRunes \<and>
     s = concat l @ TrimSpace s @ concat r \<and>
     runeWidth spaceRunes (TrimSpace s) = 0 \<and>
     runeWidth (map rev spaceRunes) (rev (TrimSpace s)) = 0"
proof -
  let ?t1 = "trimRunes spaceRunes s"
  let ?t = "TrimSpace s"
  obtain l where l: "set l \<subseteq> set spaceRunes" "s = concat l @ ?t1"
    using trimRunes_split by blast
  obtain ws where ws: "set ws \<subseteq> set (map rev spaceRunes)"
    "rev ?t1 = concat ws @ trimRunes (map rev spaceRunes) (rev ?t1)"
    using trimRunes_split by blast
  let ?r = "map rev (rev ws)"
  from ws(2) have "rev (rev ?t1) = rev (concat ws @ rev ?t)"
    by (simp add: TrimSpace_def)
  then have t1: "?t1 = ?t @ concat ?r"
    by (simp add: rev_concat)
  from ws(1) have r: "set ?r \<subseteq> set spaceRunes"
    by auto
  have trail: "runeWidth (map rev spaceRunes) (rev ?t) = 0"
    by (simp add: TrimSpace_def trimRunes_done)
  have "runeWidth spaceRunes ?t1 = 0"
    by (rule trimRunes_done)
  with t1 have "runeWidth spaceRunes (?t @ concat ?r) = 0"
    by simp
  moreover have "[] \<notin> set spaceRunes"
    by (simp add: spaceRunes_def)
  ultimately have lead: "runeWidth spaceRunes ?t = 0"
    by (rule runeWidth_front)
  from l(2) t1 have "s = concat l @ ?t @ concat ?r"
    by simp
  with l(1) r lead trail show ?thesis by blast
qed

text \<open>
  C5. When \<^verbatim>\<open>RenderPage\<close> succeeds, the path was accepted and every template of the
  chain rendered. After each template \<open>pt\<close> of the chain the bag is the bag that the
  template was given with \<^verbatim>\<open>"content"\<close> set, as \<^verbatim>\<open>template.HTML\<close>, to its output
  without the white space around it: the output is white-space runes, the value stored
  and white-space runes, and the value stored neither starts nor ends with a white-space
  rune. The bytes returned are the \<^verbatim>\<open>"content"\<close> read from the bag after the last
  template.
\<close>

theorem RenderPage_content:
  assumes "RenderPage env path d = Returns (b, None, d')"
  shows "\<exists>p m'. parsePath env path (Pages env) = (p, None) \<and>
           RenderPage_loop env (pathsToTemplates env p)
             (case d of None \<Rightarrow> Map.empty | Some m \<Rightarrow> m) = (None, m') \<and>
           b = Some (content_html m') \<and> d' = map_option (\<lambda>_. m') d \<and>
           (\<forall>pre pt post. pathsToTemplates env p = pre @ pt # post \<longrightarrow>
              (\<exists>m1 out l r. RenderPage_loop env pre
                    (case d of None \<Rightarrow> Map.empty | Some m \<Rightarrow> m) = (None, m1) \<and>
                  renderAt env pt (Some m1) (Pages env) = (out, None) \<and>
                  RenderPage_loop env (pre @ [pt])
                    (case d of None \<Rightarrow> Map.empty | Some m \<Rightarrow> m) =
                    (None, m1(''content'' \<mapsto> HTML (TrimSpace (string_of out)))) \<and>
                  set l \<subseteq> set spaceRunes \<and> set r \<subseteq> set spaceRunes \<and>
                  string_of out = concat l @ TrimSpace (string_of out) @ concat r \<and>
                  runeWidth spaceRunes (TrimSpace (string_of out)) = 0 \<and>
                  runeWidth (map rev spaceRunes) (rev (TrimSpace (string_of out))) = 0))"
proof -
  let ?m0 = "case d of None \<Rightarrow> Map.empty | Some m \<Rightarrow> m"
  obtain p f where pp: "parsePath env path (Pages env) = (p, f)"
    by (cases "parsePath env path (Pages env)")
  obtain r m' where lp: "RenderPage_loop env (pathsToTemplates env p) ?m0 = (r, m')"
    by (cases "RenderPage_loop env (pathsToTemplates env p) ?m0")
  from assms pp have f: "f = None"
    by (cases f) (simp_all add: RenderPage_def split: if_splits)
  from assms pp f lp have r: "r = None"
    by (cases r) (simp_all add: RenderPage_def split: if_splits)
  from assms pp f lp r have res: "b = Some (content_html m')" "d' = map_option (\<lambda>_. m') d"
    by (simp_all add: RenderPage_def split: if_splits)
  have "\<forall>pre pt post. pathsToTemplates env p = pre @ pt # post \<longrightarrow>
      (\<exists>m1 out l r. RenderPage_loop env pre ?m0 = (None, m1) \<and>
         renderAt env pt (Some m1) (Pages env) = (out, None) \<and>
         RenderPage_loop env (pre @ [pt]) ?m0 =
           (None, m1(''content'' \<mapsto> HTML (TrimSpace (string_of out)))) \<and>
         set l \<subseteq> set spaceRunes \<and> set r \<subseteq> set spaceRunes \<and>
         string_of out = concat l @ TrimSpace (string_of out) @ concat r \<and>
         runeWidth spaceRunes (TrimSpace (string_of out)) = 0 \<and>
         runeWidth (map rev spaceRunes) (rev (TrimSpace (string_of out))) = 0)"
  proof (intro allI impI)
    fix pre pt post
    assume "pathsToTemplates env p = pre @ pt # post"
    with lp r have "RenderPage_loop env (pre @ pt # post) ?m0 = (None, m')" by simp
    then obtain m1 out where cut: "RenderPage_loop env pre ?m0 = (None, m1)"
      "renderAt env pt (Some m1) (Pages env) = (out, None)"
      "RenderPage_loop env (pre @ [pt]) ?m0 =
         (None, m1(''content'' \<mapsto> HTML (TrimSpace (string_of out))))"
      using RenderPage_loop_cut by blast
    obtain l r where "set l \<subseteq> set spaceRunes" "set r \<subseteq> set spaceRunes"
      "string_of out = concat l @ TrimSpace (string_of out) @ concat r"
      "runeWidth spaceRunes (TrimSpace (string_of out)) = 0"
      "runeWidth (map rev spaceRunes) (rev (TrimSpace (string_of out))) = 0"
      using TrimSpace_trims by blast
    with cut show "\<exists>m1 out l r. RenderPage_loop env pre ?m0 = (None, m1) \<and>
         renderAt env pt (Some m1) (Pages env) = (out, None) \<and>
         RenderPage_loop env (pre @ [pt]) ?m0 =
           (None, m1(''content'' \<mapsto> HTML (TrimSpace (string_of out)))) \<and>
         set l \<subseteq> set spaceRunes \<and> set r \<subseteq> set spaceRunes \<and>
         string_of out = concat l @ TrimSpace (string_of out) @ concat r \<and>
         runeWidth spaceRunes (TrimSpace (string_of out)) = 0 \<and>
         runeWidth (map rev spaceRunes) (rev (TrimSpace (string_of out))) = 0"
      by blast
  qed
  with pp f lp r res show ?thesis by blast
qed

text \<open>
  A run: the page \<^verbatim>\<open>about\<close> under the root layout, with an empty bag. The page
  prints its text with a blank before and a blank and a line feed after it, and
  \<^verbatim>\<open>"content"\<close> is the text alone; the layout prints a line feed before and after
  its text, and the bytes returned have neither.
\<close>

theorem RenderPage_content_witness:
  "RenderPage padded_site ''about'' (Some Map.empty) =
     Returns (Some ''<html>hi</html>'', None,
       Some [''content'' \<mapsto> HTML ''<html>hi</html>'']) \<and>
   renderAt padded_site ''about'' (Some Map.empty) (Pages padded_site) =
     (Some '' hi \<newline>'', None) \<and>
   RenderPage_loop padded_site [''about''] Map.empty = (None, [''content'' \<mapsto> HTML ''hi'']) \<and>
   renderAt padded_site [] (Some [''content'' \<mapsto> HTML ''hi'']) (Pages padded_site) =
     (Some ''\<newline><html>hi</html>\<newline>'', None) \<and>
   (\<exists>p m'. parsePath padded_site ''about'' (Pages padded_site) = (p, None) \<and>
      RenderPage_loop padded_site (pathsToTemplates padded_site p) Map.empty = (None, m') \<and>
      Some ''<html>hi</html>'' = Some (content_html m'))"
proof -
  have run: "RenderPage padded_site ''about'' (Some Map.empty) =
     Returns (Some ''<html>hi</html>'', None,
       Some [''content'' \<mapsto> HTML ''<html>hi</html>''])"
    by (simp add: RenderPage_def padded_site_def site_defs TrimSpace_padded)
  have leaf: "renderAt padded_site ''about'' (Some Map.empty) (Pages padded_site) =
     (Some '' hi \<newline>'', None)"
    by (simp add: padded_site_def site_defs)
  have loop: "RenderPage_loop padded_site [''about''] Map.empty =
      (None, [''content'' \<mapsto> HTML ''hi''])"
    by (simp add: padded_site_def site_defs TrimSpace_padded)
  have root: "renderAt padded_site [] (Some [''content'' \<mapsto> HTML ''hi''])
      (Pages padded_site) = (Some ''\<newline><html>hi</html>\<newline>'', None)"
    by (simp add: padded_site_def site_defs)
  from RenderPage_content [OF run]
  have "\<exists>p m'. parsePath padded_site ''about'' (Pages padded_site) = (p, None) \<and>
      RenderPage_loop padded_site (pathsToTemplates padded_site p) Map.empty = (None, m') \<and>
      Some ''<html>hi</html>'' = Some (content_html m')"
    by simp blast
  with run leaf loop root show ?thesis by blast
qed

subsection \<open>The first failure of a template (C6)\<close>

text \<open>
  C6. When the templates \<open>pre\<close> of the chain have rendered and the executor fails on the
  next template \<open>pt\<close>, \<^verbatim>\<open>RenderPage\<close> returns nil bytes and that failure as it is.
  The templates \<open>post\<close> after \<open>pt\<close> play no part: the loop over the whole chain is the
  loop over the chain cut after \<open>pt\<close>, and the bag is the one \<open>pt\<close> was given.
\<close>

theorem RenderPage_aborts:
  assumes "ready env"
    and "parsePath env path (Pages env) = (p, None)"
    and "pathsToTemplates env p = pre @ pt # post"
    and "RenderPage_loop env pre (case d of None \<Rightarrow> Map.empty | Some m \<Rightarrow> m) = (None, m1)"
    and "renderAt env pt (Some m1) (Pages env) = (b, Some e)"
  shows "RenderPage env path d = Returns (None, Some e, map_option (\<lambda>_. m1) d) \<and>
         RenderPage_loop env (pre @ pt # post) (case d of None \<Rightarrow> Map.empty | Some m \<Rightarrow> m) =
           RenderPage_loop env (pre @ [pt]) (case d of None \<Rightarrow> Map.empty | Some m \<Rightarrow> m)"
  using assms by (simp add: RenderPage_def RenderPage_loop_append)

text \<open>
  A run: the page \<^verbatim>\<open>docs/intro\<close> renders, its section layout \<^verbatim>\<open>docs\<close> fails, and
  the root layout after it is not reached.
\<close>

theorem RenderPage_aborts_witness:
  "ready docs_site \<and>
   parsePath docs_site ''docs/intro'' (Pages docs_site) = (''docs/intro'', None) \<and>
   pathsToTemplates docs_site ''docs/intro'' = [''docs/intro''] @ ''docs'' # [[]] \<and>
   RenderPage_loop docs_site [''docs/intro''] Map.empty =
     (None, [''content'' \<mapsto> HTML ''hi'']) \<and>
   renderAt docs_site ''docs'' (Some [''content'' \<mapsto> HTML ''hi'']) (Pages docs_site) =
     (None, Some Internal) \<and>
   RenderPage docs_site ''docs/intro'' (Some Map.empty) =
     Returns (None, Some Internal, Some [''content'' \<mapsto> HTML ''hi''])"
proof -
  have h1: "ready docs_site"
    by (simp add: docs_site_def site_def)
  have h2: "parsePath docs_site ''docs/intro'' (Pages docs_site) = (''docs/intro'', None)"
    by (simp add: docs_site_def site_defs)
  have h3: "pathsToTemplates docs_site ''docs/intro'' = [''docs/intro''] @ ''docs'' # [[]]"
    by (simp add: docs_site_def site_defs)
  have h4: "RenderPage_loop docs_site [''docs/intro'']
      (case Some Map.empty of None \<Rightarrow> Map.empty | Some m \<Rightarrow> m) =
      (None, [''content'' \<mapsto> HTML ''hi''])"
    by (simp add: docs_site_def site_defs TrimSpace_texts)
  have h5: "renderAt docs_site ''docs'' (Some [''content'' \<mapsto> HTML ''hi''])
      (Pages docs_site) = (None, Some Internal)"
    by (simp add: docs_site_def site_defs)
  from RenderPage_aborts [OF h1 h2 h3 h4 h5] h1 h2 h3 h4 h5 show ?thesis
    by simp
qed

subsection \<open>The readiness check (C7)\<close>

text \<open>
  Before the setup \<^verbatim>\<open>Render\<close>, \<^verbatim>\<open>RenderPage\<close> and \<^verbatim>\<open>RenderStandalone\<close> panic
  whatever their arguments are. \<^verbatim>\<open>RenderError\<close> panics when its error is not nil, in
  the call of \<^verbatim>\<open>RenderPage\<close> of its first pass, and returns when its error is nil.
\<close>

lemma unready_entry_points:
  assumes "\<not> ready env"
  shows "Render env path d = Some Fatal \<and> RenderPage env path d = Fatal \<and>
         RenderStandalone env path d = Fatal \<and>
         RenderError env (Some e) d = Some Fatal \<and>
         RenderError env None d = Some (Returns (None, None, d))"
proof -
  from assms have p: "\<And>q x. RenderPage env q x = Fatal"
    by (simp add: RenderPage_def)
  have "RenderError env (Some e) d = Some Fatal"
    unfolding RenderError_def
    by (subst RenderError_loop.simps) (simp add: RenderError_iter_def cascade_start_def p)
  moreover have "RenderError env None d = Some (Returns (None, None, d))"
    unfolding RenderError_def
    by (subst RenderError_loop.simps) (simp add: RenderError_iter_def cascade_start_def)
  ultimately show ?thesis
    using assms p by (simp add: Render_def RenderStandalone_def)
qed

text \<open>
  C7: each of the four entry points makes the readiness check before any other work
  and panics when it is called before the setup. \<^verbatim>\<open>Render\<close>, \<^verbatim>\<open>RenderPage\<close> and
  \<^verbatim>\<open>RenderStandalone\<close> start with \<^verbatim>\<open>assertReady()\<close>; \<^verbatim>\<open>RenderError\<close> has no such
  call. On the site before its setup the three panic, and \<^verbatim>\<open>RenderError\<close> with a nil
  error returns nil bytes and a nil error.
\<close>

theorem RenderError_unready:
  "\<not> ready offline_site \<and>
   Render offline_site ''home'' None = Some Fatal \<and>
   RenderPage offline_site ''home'' None = Fatal \<and>
   RenderStandalone offline_site ''$menu'' None = Fatal \<and>
   RenderError offline_site None None = Some (Returns (None, None, None))"
proof -
  have "\<not> ready offline_site"
    by (simp add: offline_site_def)
  moreover have "RenderError offline_site None None = Some (Returns (None, None, None))"
    unfolding RenderError_def
    by (subst RenderError_loop.simps) (simp add: RenderError_iter_def cascade_start_def)
  ultimately show ?thesis
    by (simp add: Render_def RenderPage_def RenderStandalone_def)
qed

subsection \<open>Standalone templates (C8)\<close>




subsection \<open>Rendering a page twice (C9)\<close>

text \<open>What \<^verbatim>\<open>RenderPage\<close> returns after an accepted path, from the result of its loop.\<close>

lemma RenderPage_loop_result:
  assumes "ready env"
    and "parsePath env path (Pages env) = (p, None)"
    and "RenderPage_loop env (pathsToTemplates env p) m = (r, m')"
  shows "RenderPage env path (Some m) =
     Returns (case r of None \<Rightarrow> Some (content_html m') | Some x \<Rightarrow> None, r, Some m')"
  using assms by (cases r) (simp_all add: RenderPage_def)

text \<open>The loop of \<^verbatim>\<open>RenderPage\<close> writes to the key \<^verbatim>\<open>"content"\<close> only.\<close>

lemma RenderPage_loop_frame:
  "RenderPage_loop env xs m = (r, m') \<Longrightarrow> m'(''content'' := x) = m(''content'' := x)"
proof (induction xs arbitrary: m)
  case Nil
  then show ?case by simp
next
  case (Cons pt xs)
  obtain b f where ra: "renderAt env pt (Some m) (Pages env) = (b, f)"
    by (cases "renderAt env pt (Some m) (Pages env)")
  show ?case
  proof (cases f)
    case None
    with Cons.prems ra have "RenderPage_loop env xs
        (m(''content'' \<mapsto> HTML (TrimSpace (string_of b)))) = (r, m')"
      by simp
    then have "m'(''content'' := x) =
        (m(''content'' \<mapsto> HTML (TrimSpace (string_of b))))(''content'' := x)"
      by (rule Cons.IH)
    then show ?thesis by simp
  next
    case (Some e)
    with Cons.prems ra show ?thesis by simp
  qed
qed

text \<open>
  C9, as the spec states it: a second call of \<^verbatim>\<open>RenderPage\<close> on the same path with
  the bag that the first call used returns the same bytes. The first call has stored its
  output in that bag, and the page \<^verbatim>\<open>note\<close> shows the content it is given: the second
  call returns other bytes.
\<close>

theorem RenderPage_twice_counterexample:
  "RenderPage notes_site ''note'' (Some Map.empty) =
     Returns (Some ''<p>!</p>'', None, Some [''content'' \<mapsto> HTML ''<p>!</p>'']) \<and>
   RenderPage notes_site ''note'' (Some [''content'' \<mapsto> HTML ''<p>!</p>'']) =
     Returns (Some ''<p><p>!</p>!</p>'', None,
       Some [''content'' \<mapsto> HTML ''<p><p>!</p>!</p>''])"
  by (simp add: RenderPage_def notes_site_def site_defs TrimSpace_texts)

text \<open>
  C9, amended. Let a call of \<^verbatim>\<open>RenderPage\<close> with a bag \<open>m\<close> leave the bag \<open>m1\<close>. If
  the executor does the same on the first template of the chain with \<open>m1\<close> as with \<open>m\<close>
  (the page does not depend on the \<^verbatim>\<open>"content"\<close> it is given), a second call on the
  same path with the bag \<open>m1\<close> returns what the first call returned, bytes and error, and
  leaves the bag as it is.
\<close>

theorem RenderPage_twice:
  assumes first: "RenderPage env path (Some m) = Returns (b, e, Some m1)"
    and leaf: "\<forall>p pt rest. parsePath env path (Pages env) = (p, None) \<longrightarrow>
        pathsToTemplates env p = pt # rest \<longrightarrow>
        renderAt env pt (Some m1) (Pages env) = renderAt env pt (Some m) (Pages env)"
  shows "RenderPage env path (Some m1) = Returns (b, e, Some m1)"
proof -
  from first have rdy: "ready env"
    by (simp add: RenderPage_def split: if_splits)
  obtain p f where pp: "parsePath env path (Pages env) = (p, f)"
    by (cases "parsePath env path (Pages env)")
  show ?thesis
  proof (cases f)
    case (Some e')
    with pp have pf: "parsePath env path (Pages env) = (p, Some e')"
      by simp
    from first pf rdy have "b = None" "e = Some e'" "m1 = m"
      by (simp_all add: RenderPage_def)
    with pf rdy show ?thesis
      by (simp add: RenderPage_def)
  next
    case None
    with pp have pf: "parsePath env path (Pages env) = (p, None)"
      by simp
    obtain r m' where lp: "RenderPage_loop env (pathsToTemplates env p) m = (r, m')"
      by (cases "RenderPage_loop env (pathsToTemplates env p) m")
    from first RenderPage_loop_result [OF rdy pf lp]
    have res: "b = (case r of None \<Rightarrow> Some (content_html m') | Some x \<Rightarrow> None)"
        "e = r" "m1 = m'"
      by auto
    have "RenderPage_loop env (pathsToTemplates env p) m1 = (r, m1)"
    proof (cases "pathsToTemplates env p")
      case Nil
      with lp res show ?thesis by auto
    next
      case (Cons pt rest)
      with leaf pf
      have same: "renderAt env pt (Some m1) (Pages env) = renderAt env pt (Some m) (Pages env)"
        by simp
      obtain out g where ra: "renderAt env pt (Some m) (Pages env) = (out, g)"
        by (cases "renderAt env pt (Some m) (Pages env)")
      show ?thesis
      proof (cases g)
        case (Some e')
        with lp Cons ra same res show ?thesis by auto
      next
        case None
        let ?v = "HTML (TrimSpace (string_of out))"
        from lp Cons ra None
        have rest: "RenderPage_loop env rest (m(''content'' \<mapsto> ?v)) = (r, m')"
          by simp
        then have "m'(''content'' := Some ?v) = (m(''content'' \<mapsto> ?v))(''content'' := Some ?v)"
          by (rule RenderPage_loop_frame)
        then have "m1(''content'' \<mapsto> ?v) = m(''content'' \<mapsto> ?v)"
          using res by simp
        with rest Cons ra None same res show ?thesis by auto
      qed
    qed
    from RenderPage_loop_result [OF rdy pf this] res show ?thesis
      by auto
  qed
qed

text \<open>
  A run: the page \<^verbatim>\<open>home\<close> prints a fixed text, and the second call with the bag of
  the first returns the same bytes.
\<close>

theorem RenderPage_twice_witness:
  "RenderPage docs_site ''home'' (Some Map.empty) =
     Returns (Some ''<html>welcome</html>'', None,
       Some [''content'' \<mapsto> HTML ''<html>welcome</html>'']) \<and>
   RenderPage docs_site ''home'' (Some [''content'' \<mapsto> HTML ''<html>welcome</html>'']) =
     Returns (Some ''<html>welcome</html>'', None,
       Some [''content'' \<mapsto> HTML ''<html>welcome</html>''])"
proof -
  have first: "RenderPage docs_site ''home'' (Some Map.empty) =
     Returns (Some ''<html>welcome</html>'', None,
       Some [''content'' \<mapsto> HTML ''<html>welcome</html>''])"
    by (simp add: RenderPage_def docs_site_def site_defs TrimSpace_texts)
  have leaf: "\<forall>p pt rest.
      parsePath docs_site ''home'' (Pages docs_site) = (p, None) \<longrightarrow>
      pathsToTemplates docs_site p = pt # rest \<longrightarrow>
      renderAt docs_site pt (Some [''content'' \<mapsto> HTML ''<html>welcome</html>''])
        (Pages docs_site) =
      renderAt docs_site pt (Some Map.empty) (Pages docs_site)"
    by (simp add: docs_site_def site_defs)
  from RenderPage_twice [OF first leaf] first show ?thesis by simp
qed

subsection \<open>The bag after a failed page (C10)\<close>

text \<open>
  With a nil bag \<^verbatim>\<open>RenderPage\<close> does what it does with an empty bag and leaves the
  caller's bag nil. With a bag that is not nil it leaves a bag that differs from it at
  the key \<^verbatim>\<open>"content"\<close> at most. The passes of the cascade keep both.
\<close>

lemma RenderPage_nil:
  "RenderPage env path None =
     (case RenderPage env path (Some Map.empty) of
        Fatal \<Rightarrow> Fatal
      | Returns (b, e, d') \<Rightarrow> Returns (b, e, None))"
  by (simp add: RenderPage_def split: prod.splits option.splits)

lemma RenderPage_frame:
  assumes "RenderPage env path (Some m) = Returns (b, e, d')"
  shows "\<exists>m'. d' = Some m' \<and> (\<forall>x. m'(''content'' := x) = m(''content'' := x))"
proof -
  from assms have rdy: "ready env"
    by (simp add: RenderPage_def split: if_splits)
  obtain p f where pp: "parsePath env path (Pages env) = (p, f)"
    by (cases "parsePath env path (Pages env)")
  show ?thesis
  proof (cases f)
    case (Some e')
    with assms pp rdy have "d' = Some m"
      by (simp add: RenderPage_def)
    then show ?thesis by simp
  next
    case None
    with pp have pf: "parsePath env path (Pages env) = (p, None)"
      by simp
    obtain r m' where lp: "RenderPage_loop env (pathsToTemplates env p) m = (r, m')"
      by (cases "RenderPage_loop env (pathsToTemplates env p) m")
    from assms RenderPage_loop_result [OF rdy pf lp] have "d' = Some m'"
      by simp
    moreover from lp have "\<forall>x. m'(''content'' := x) = m(''content'' := x)"
      using RenderPage_loop_frame by blast
    ultimately show ?thesis by simp
  qed
qed

lemma RenderError_iter_bag:
  assumes "RenderError_iter env s = Next s'"
  shows "(data s = None \<longrightarrow> data s' = None) \<and>
         (\<forall>m. data s = Some m \<longrightarrow>
            (\<exists>m'. data s' = Some m' \<and> (\<forall>x. m'(''content'' := x) = m(''content'' := x))))"
proof -
  from assms obtain e where e: "err s = Some e"
    using RenderError_iter_pending by blast
  with assms obtain b1 e1 d1
    where page: "RenderPage env (ErrorPath env e) (data s) = Returns (b1, e1, d1)"
      and d1: "data s' = d1"
    by (auto simp add: RenderError_iter_def Let_def split: if_splits outcome.splits)
  show ?thesis
  proof (intro conjI allI impI)
    assume "data s = None"
    with page have "RenderPage env (ErrorPath env e) None = Returns (b1, e1, d1)"
      by simp
    then have "d1 = None"
      by (simp add: RenderPage_nil split: outcome.splits prod.splits)
    with d1 show "data s' = None" by simp
  next
    fix m
    assume "data s = Some m"
    with page have "RenderPage env (ErrorPath env e) (Some m) = Returns (b1, e1, d1)"
      by simp
    then have "\<exists>m'. d1 = Some m' \<and> (\<forall>x. m'(''content'' := x) = m(''content'' := x))"
      by (rule RenderPage_frame)
    with d1 show "\<exists>m'. data s' = Some m' \<and> (\<forall>x. m'(''content'' := x) = m(''content'' := x))"
      by simp
  qed
qed

lemma RenderError_steps_nil:
  "RenderError_steps n env s = Next s' \<Longrightarrow> data s = None \<Longrightarrow> data s' = None"
proof (induction n arbitrary: s)
  case 0
  then show ?case by simp
next
  case (Suc n)
  then obtain s1 where s1: "RenderError_iter env s = Next s1"
    and rest: "RenderError_steps n env s1 = Next s'"
    by (auto split: flow.splits)
  from RenderError_iter_bag [OF s1] Suc.prems(2) have "data s1 = None"
    by simp
  with rest show ?case by (rule Suc.IH)
qed

lemma RenderError_steps_bag:
  "RenderError_steps n env s = Next s' \<Longrightarrow> data s = Some m \<Longrightarrow>
     \<exists>m'. data s' = Some m' \<and> (\<forall>x. m'(''content'' := x) = m(''content'' := x))"
proof (induction n arbitrary: s m)
  case 0
  then show ?case by simp
next
  case (Suc n)
  then obtain s1 where s1: "RenderError_iter env s = Next s1"
    and rest: "RenderError_steps n env s1 = Next s'"
    by (auto split: flow.splits)
  from RenderError_iter_bag [OF s1] Suc.prems(2) obtain m1
    where m1: "data s1 = Some m1" "\<forall>x. m1(''content'' := x) = m(''content'' := x)"
    by blast
  from Suc.IH [OF rest m1(1)] obtain m'
    where d: "data s' = Some m'" and f: "\<forall>x. m'(''content'' := x) = m1(''content'' := x)"
    by blast
  have "\<forall>x. m'(''content'' := x) = m(''content'' := x)"
  proof
    fix x
    from f have "m'(''content'' := x) = m1(''content'' := x)" ..
    also from m1(2) have "\<dots> = m(''content'' := x)" ..
    finally show "m'(''content'' := x) = m(''content'' := x)" .
  qed
  with d show ?case by blast
qed

text \<open>
  C10, as the spec states it: when \<^verbatim>\<open>RenderPage\<close> fails after a template has
  rendered, the caller's bag holds that template's output, \<^verbatim>\<open>Render\<close> hands this
  bag to \<^verbatim>\<open>RenderError\<close>, and the error pages are rendered against that content.
  With a nil bag the output is stored in the map that \<^verbatim>\<open>RenderPage\<close> makes for
  itself: the caller's bag is still nil, and the page for 500 is rendered with no
  content, where a caller with an empty map gets the content \<^verbatim>\<open>hi\<close> shown. And an
  error page that fails after one of its templates has rendered leaves the output of
  that template in the bag: on the site with two sections the page for 500, the second
  error page, shows \<^verbatim>\<open>denied\<close>, the output of the first error page, not \<^verbatim>\<open>hi\<close>.
\<close>

theorem Render_bag_counterexample:
  "RenderPage docs_site ''docs/intro'' None = Returns (None, Some Internal, None) \<and>
   Render docs_site ''docs/intro'' None =
     Some (Returns (Some ''<html>[]</html>'', Some Internal, None)) \<and>
   Render docs_site ''docs/intro'' (Some Map.empty) =
     Some (Returns (Some ''<html>[hi]</html>'', Some Internal,
       Some [''content'' \<mapsto> HTML ''<html>[hi]</html>''])) \<and>
   RenderPage help_site ''docs/intro'' (Some Map.empty) =
     Returns (None, Some (Coded 403), Some [''content'' \<mapsto> HTML ''hi'']) \<and>
   Render help_site ''docs/intro'' (Some Map.empty) =
     Some (Returns (Some ''<html>[denied]</html>'', Some Internal,
       Some [''content'' \<mapsto> HTML ''<html>[denied]</html>'']))"
proof -
  have page: "RenderPage docs_site ''docs/intro'' None = Returns (None, Some Internal, None)"
    by (simp add: RenderPage_def docs_site_def site_defs TrimSpace_texts)
  have page': "RenderPage docs_site ''docs/intro'' (Some Map.empty) =
      Returns (None, Some Internal, Some [''content'' \<mapsto> HTML ''hi''])"
    by (simp add: RenderPage_def docs_site_def site_defs TrimSpace_texts)
  have rdy: "ready docs_site"
    by (simp add: docs_site_def site_def)
  have run: "RenderError docs_site (Some Internal) None =
      Some (Returns (Some ''<html>[]</html>'', Some Internal, None))"
    unfolding RenderError_def
    by (rule steps_Done_loop [of "Suc (Suc 0)"])
      (simp add: RenderError_iter_def cascade_start_def ErrorPath_def Itoa_codes
        RenderPage_def docs_site_def site_defs TrimSpace_texts)
  have run': "RenderError docs_site (Some Internal) (Some [''content'' \<mapsto> HTML ''hi'']) =
      Some (Returns (Some ''<html>[hi]</html>'', Some Internal,
        Some [''content'' \<mapsto> HTML ''<html>[hi]</html>'']))"
    unfolding RenderError_def
    by (rule steps_Done_loop [of "Suc (Suc 0)"])
      (simp add: RenderError_iter_def cascade_start_def ErrorPath_def Itoa_codes
        RenderPage_def docs_site_def site_defs TrimSpace_texts)
  have hpage: "RenderPage help_site ''docs/intro'' (Some Map.empty) =
      Returns (None, Some (Coded 403), Some [''content'' \<mapsto> HTML ''hi''])"
    by (simp add: RenderPage_def help_site_def site_defs TrimSpace_texts)
  have hrdy: "ready help_site"
    by (simp add: help_site_def site_def)
  have hrun: "RenderError help_site (Some (Coded 403)) (Some [''content'' \<mapsto> HTML ''hi'']) =
      Some (Returns (Some ''<html>[denied]</html>'', Some Internal,
        Some [''content'' \<mapsto> HTML ''<html>[denied]</html>'']))"
    unfolding RenderError_def
    by (rule steps_Done_loop [of "Suc (Suc (Suc 0))"])
      (simp add: RenderError_iter_def cascade_start_def ErrorPath_def Itoa_codes
        RenderPage_def help_site_def site_defs TrimSpace_texts TrimSpace_denied)
  from page page' rdy run run' hpage hrdy hrun show ?thesis
    by (simp add: Render_def)
qed

text \<open>
  C10, amended. After the setup, for a bag that is not nil: let the templates \<open>pre\<close>
  and then \<open>q\<close> of the chain render and the next template \<open>pt\<close> fail.
  \<^verbatim>\<open>RenderPage\<close> returns the failure and leaves in the caller's bag the trimmed output
  of \<open>q\<close> under \<^verbatim>\<open>"content"\<close>; \<^verbatim>\<open>Render\<close> is \<^verbatim>\<open>RenderError\<close> on that failure and
  that bag; the first pass of the cascade renders the error page with that bag; and
  every later pass has a bag that differs from it at \<^verbatim>\<open>"content"\<close> at most. For a nil
  bag: \<^verbatim>\<open>RenderPage\<close> returns what it returns with an empty bag and the caller's bag is
  still nil; when it fails, \<^verbatim>\<open>Render\<close> is \<^verbatim>\<open>RenderError\<close> on the failure and the nil
  bag; and every pass of the cascade has a nil bag.
\<close>

theorem Render_partial_content:
  assumes "ready env"
  shows "(parsePath env path (Pages env) = (p, None) \<and>
          pathsToTemplates env p = pre @ q # pt # post \<and>
          RenderPage_loop env pre m = (None, m0) \<and>
          renderAt env q (Some m0) (Pages env) = (b, None) \<and>
          renderAt env pt (Some (m0(''content'' \<mapsto> HTML (TrimSpace (string_of b)))))
            (Pages env) = (b', Some e) \<longrightarrow>
            RenderPage env path (Some m) =
              Returns (None, Some e, Some (m0(''content'' \<mapsto> HTML (TrimSpace (string_of b))))) \<and>
            Render env path (Some m) =
              RenderError env (Some e)
                (Some (m0(''content'' \<mapsto> HTML (TrimSpace (string_of b))))) \<and>
            RenderError_iter env
                (cascade_start (Some e)
                  (Some (m0(''content'' \<mapsto> HTML (TrimSpace (string_of b)))))) =
              (case RenderPage env (ErrorPath env e)
                      (Some (m0(''content'' \<mapsto> HTML (TrimSpace (string_of b))))) of
                 Fatal \<Rightarrow> Done Fatal
               | Returns (b1, e1, d1) \<Rightarrow>
                   Next \<lparr>err = e1, lastErr = Some e, bytes = b1,
                         codes = (\<lambda>_. False)(ErrorCode env e := True), data = d1\<rparr>) \<and>
            (\<forall>n s. RenderError_steps n env
                      (cascade_start (Some e)
                        (Some (m0(''content'' \<mapsto> HTML (TrimSpace (string_of b)))))) = Next s \<longrightarrow>
               (\<exists>m'. data s = Some m' \<and>
                  (\<forall>x. m'(''content'' := x) =
                     (m0(''content'' \<mapsto> HTML (TrimSpace (string_of b))))(''content'' := x))))) \<and>
         RenderPage env path None =
           (case RenderPage env path (Some Map.empty) of
              Fatal \<Rightarrow> Fatal
            | Returns (b0, e0, d0) \<Rightarrow> Returns (b0, e0, None)) \<and>
         (\<forall>b0 e0 d0. RenderPage env path None = Returns (b0, Some e0, d0) \<longrightarrow>
            d0 = None \<and> Render env path None = RenderError env (Some e0) None) \<and>
         (\<forall>n s e0. RenderError_steps n env (cascade_start e0 None) = Next s \<longrightarrow> data s = None)"
proof -
  let ?m1 = "m0(''content'' \<mapsto> HTML (TrimSpace (string_of b)))"
  have p1: "parsePath env path (Pages env) = (p, None) \<and>
      pathsToTemplates env p = pre @ q # pt # post \<and>
      RenderPage_loop env pre m = (None, m0) \<and>
      renderAt env q (Some m0) (Pages env) = (b, None) \<and>
      renderAt env pt (Some ?m1) (Pages env) = (b', Some e) \<longrightarrow>
        RenderPage env path (Some m) = Returns (None, Some e, Some ?m1) \<and>
        Render env path (Some m) = RenderError env (Some e) (Some ?m1) \<and>
        RenderError_iter env (cascade_start (Some e) (Some ?m1)) =
          (case RenderPage env (ErrorPath env e) (Some ?m1) of
             Fatal \<Rightarrow> Done Fatal
           | Returns (b1, e1, d1) \<Rightarrow>
               Next \<lparr>err = e1, lastErr = Some e, bytes = b1,
                     codes = (\<lambda>_. False)(ErrorCode env e := True), data = d1\<rparr>) \<and>
        (\<forall>n s. RenderError_steps n env (cascade_start (Some e) (Some ?m1)) = Next s \<longrightarrow>
           (\<exists>m'. data s = Some m' \<and> (\<forall>x. m'(''content'' := x) = ?m1(''content'' := x))))"
  proof
    assume "parsePath env path (Pages env) = (p, None) \<and>
      pathsToTemplates env p = pre @ q # pt # post \<and>
      RenderPage_loop env pre m = (None, m0) \<and>
      renderAt env q (Some m0) (Pages env) = (b, None) \<and>
      renderAt env pt (Some ?m1) (Pages env) = (b', Some e)"
    then have a1: "parsePath env path (Pages env) = (p, None)"
      and a2: "pathsToTemplates env p = pre @ q # pt # post"
      and a3: "RenderPage_loop env pre m = (None, m0)"
      and a4: "renderAt env q (Some m0) (Pages env) = (b, None)"
      and a5: "renderAt env pt (Some ?m1) (Pages env) = (b', Some e)"
      by simp_all
    from a2 a3 a4 a5 have "RenderPage_loop env (pathsToTemplates env p) m = (Some e, ?m1)"
      by (simp add: RenderPage_loop_append)
    from RenderPage_loop_result [OF assms a1 this]
    have page: "RenderPage env path (Some m) = Returns (None, Some e, Some ?m1)"
      by simp
    with assms have render: "Render env path (Some m) = RenderError env (Some e) (Some ?m1)"
      by (simp add: Render_def)
    have first: "RenderError_iter env (cascade_start (Some e) (Some ?m1)) =
        (case RenderPage env (ErrorPath env e) (Some ?m1) of
           Fatal \<Rightarrow> Done Fatal
         | Returns (b1, e1, d1) \<Rightarrow>
             Next \<lparr>err = e1, lastErr = Some e, bytes = b1,
                   codes = (\<lambda>_. False)(ErrorCode env e := True), data = d1\<rparr>)"
      by (simp add: RenderError_iter_def cascade_start_def split: outcome.splits)
    have later: "\<forall>n s. RenderError_steps n env (cascade_start (Some e) (Some ?m1)) = Next s \<longrightarrow>
        (\<exists>m'. data s = Some m' \<and> (\<forall>x. m'(''content'' := x) = ?m1(''content'' := x)))"
    proof (intro allI impI)
      fix n s
      assume "RenderError_steps n env (cascade_start (Some e) (Some ?m1)) = Next s"
      moreover have "data (cascade_start (Some e) (Some ?m1)) = Some ?m1"
        by (simp add: cascade_start_def)
      ultimately show "\<exists>m'. data s = Some m' \<and>
          (\<forall>x. m'(''content'' := x) = ?m1(''content'' := x))"
        by (rule RenderError_steps_bag)
    qed
    from page render first later
    show "RenderPage env path (Some m) = Returns (None, Some e, Some ?m1) \<and>
        Render env path (Some m) = RenderError env (Some e) (Some ?m1) \<and>
        RenderError_iter env (cascade_start (Some e) (Some ?m1)) =
          (case RenderPage env (ErrorPath env e) (Some ?m1) of
             Fatal \<Rightarrow> Done Fatal
           | Returns (b1, e1, d1) \<Rightarrow>
               Next \<lparr>err = e1, lastErr = Some e, bytes = b1,
                     codes = (\<lambda>_. False)(ErrorCode env e := True), data = d1\<rparr>) \<and>
        (\<forall>n s. RenderError_steps n env (cascade_start (Some e) (Some ?m1)) = Next s \<longrightarrow>
           (\<exists>m'. data s = Some m' \<and> (\<forall>x. m'(''content'' := x) = ?m1(''content'' := x))))"
      by (intro conjI)
  qed
  have p2: "RenderPage env path None =
      (case RenderPage env path (Some Map.empty) of
         Fatal \<Rightarrow> Fatal
       | Returns (b0, e0, d0) \<Rightarrow> Returns (b0, e0, None))"
    by (rule RenderPage_nil)
  have p3: "\<forall>b0 e0 d0. RenderPage env path None = Returns (b0, Some e0, d0) \<longrightarrow>
      d0 = None \<and> Render env path None = RenderError env (Some e0) None"
  proof (intro allI impI)
    fix b0 e0 d0
    assume r: "RenderPage env path None = Returns (b0, Some e0, d0)"
    then have "d0 = None"
      by (simp add: RenderPage_nil split: outcome.splits prod.splits)
    moreover from this r assms have "Render env path None = RenderError env (Some e0) None"
      by (simp add: Render_def)
    ultimately show "d0 = None \<and> Render env path None = RenderError env (Some e0) None"
      by (rule conjI)
  qed
  have p4: "\<forall>n s e0. RenderError_steps n env (cascade_start e0 None) = Next s \<longrightarrow>
      data s = None"
  proof (intro allI impI)
    fix n s e0
    assume "RenderError_steps n env (cascade_start e0 None) = Next s"
    moreover have "data (cascade_start e0 None) = None"
      by (simp add: cascade_start_def)
    ultimately show "data s = None"
      by (rule RenderError_steps_nil)
  qed
  show ?thesis
    by (rule conjI [OF p1 conjI [OF p2 conjI [OF p3 p4]]])
qed

text \<open>
  A run: the page \<^verbatim>\<open>docs/intro\<close> renders \<^verbatim>\<open>hi\<close>, its section layout fails, and the
  cascade starts from the bag with that content; with a nil bag it starts from the nil
  bag.
\<close>

theorem Render_partial_content_witness:
  "ready docs_site \<and>
   parsePath docs_site ''docs/intro'' (Pages docs_site) = (''docs/intro'', None) \<and>
   pathsToTemplates docs_site ''docs/intro'' = [] @ ''docs/intro'' # ''docs'' # [[]] \<and>
   renderAt docs_site ''docs/intro'' (Some Map.empty) (Pages docs_site) = (Some '' hi '', None) \<and>
   renderAt docs_site ''docs'' (Some [''content'' \<mapsto> HTML ''hi'']) (Pages docs_site) =
     (None, Some Internal) \<and>
   RenderPage docs_site ''docs/intro'' (Some Map.empty) =
     Returns (None, Some Internal, Some [''content'' \<mapsto> HTML ''hi'']) \<and>
   Render docs_site ''docs/intro'' (Some Map.empty) =
     RenderError docs_site (Some Internal) (Some [''content'' \<mapsto> HTML ''hi'']) \<and>
   RenderPage docs_site ''docs/intro'' None = Returns (None, Some Internal, None) \<and>
   Render docs_site ''docs/intro'' None = RenderError docs_site (Some Internal) None"
proof -
  have h1: "ready docs_site"
    by (simp add: docs_site_def site_def)
  have h2: "parsePath docs_site ''docs/intro'' (Pages docs_site) = (''docs/intro'', None)"
    by (simp add: docs_site_def site_defs)
  have h3: "pathsToTemplates docs_site ''docs/intro'' = [] @ ''docs/intro'' # ''docs'' # [[]]"
    by (simp add: docs_site_def site_defs)
  have h4: "RenderPage_loop docs_site [] Map.empty = (None, Map.empty)"
    by simp
  have h5: "renderAt docs_site ''docs/intro'' (Some Map.empty) (Pages docs_site) =
      (Some '' hi '', None)"
    by (simp add: docs_site_def site_defs)
  have h6: "renderAt docs_site ''docs''
      (Some (Map.empty(''content'' \<mapsto> HTML (TrimSpace (string_of (Some '' hi ''))))))
      (Pages docs_site) = (None, Some Internal)"
    by (simp add: docs_site_def site_defs)
  have h7: "RenderPage docs_site ''docs/intro'' None = Returns (None, Some Internal, None)"
    by (simp add: RenderPage_def docs_site_def site_defs TrimSpace_texts)
  note t = Render_partial_content [OF h1, of "''docs/intro''" "''docs/intro''" "[]"
      "''docs/intro''" "''docs''" "[[]]" Map.empty Map.empty "Some '' hi ''" None Internal]
  from t h2 h3 h4 h5 h6
  have "RenderPage docs_site ''docs/intro'' (Some Map.empty) =
      Returns (None, Some Internal, Some [''content'' \<mapsto> HTML ''hi'']) \<and>
    Render docs_site ''docs/intro'' (Some Map.empty) =
      RenderError docs_site (Some Internal) (Some [''content'' \<mapsto> HTML ''hi''])"
    by (simp add: string_of_def TrimSpace_texts)
  moreover from t h7 have "Render docs_site ''docs/intro'' None =
      RenderError docs_site (Some Internal) None"
    by simp
  ultimately show ?thesis
    using h1 h2 h3 h5 h6 h7 by (simp add: string_of_def TrimSpace_texts)
qed

subsection \<open>How long the cascade runs (C1)\<close>

text \<open>A pass that goes on keeps the codes it found marked, and marks 500 after an error
  classified 500.\<close>

lemma RenderError_iter_codes:
  assumes "RenderError_iter env s = Next s'"
  shows "(codes s c \<longrightarrow> codes s' c) \<and>
         (\<forall>e. err s = Some e \<longrightarrow> ErrorCode env e = 500 \<longrightarrow> codes s' 500)"
proof (cases "err s")
  case None
  with assms show ?thesis
    by (simp add: RenderError_iter_def)
next
  case (Some e)
  with assms show ?thesis
    by (auto simp add: RenderError_iter_def Let_def split: if_splits outcome.splits)
qed

lemma RenderError_steps_codes:
  "RenderError_steps n env s = Next s' \<Longrightarrow> codes s c \<Longrightarrow> codes s' c"
proof (induction n arbitrary: s)
  case 0
  then show ?case by simp
next
  case (Suc n)
  then obtain s1 where s1: "RenderError_iter env s = Next s1"
    and rest: "RenderError_steps n env s1 = Next s'"
    by (auto split: flow.splits)
  from s1 Suc.prems(2) have "codes s1 c"
    using RenderError_iter_codes by blast
  with rest show ?case by (rule Suc.IH)
qed

lemma RenderError_iter_seen_500:
  assumes "err s = Some e" and "ErrorCode env e = 500" and "codes s 500"
  shows "RenderError_iter env s = Done (Returns (fallback env, Some e, data s))"
  using assms by (simp add: RenderError_iter_def)

text \<open>
  C1, as the spec states it: the cascade makes at most two render attempts under
  distinct codes, however many codes the failures produce. On the site where each error
  page fails with a code not seen before, the cascade has made four attempts under four
  codes after four passes, none of them 500, and has not returned; it returns in the
  fifth pass.
\<close>

theorem RenderError_passes_counterexample:
  "is_Next (RenderError_steps 4 denied_site (cascade_start (Some NotFound) None)) \<and>
   lastErr (next_state (RenderError_steps 4 denied_site (cascade_start (Some NotFound) None))) =
     Some (Coded 401) \<and>
   codes (next_state (RenderError_steps 4 denied_site (cascade_start (Some NotFound) None))) 404 \<and>
   codes (next_state (RenderError_steps 4 denied_site (cascade_start (Some NotFound) None))) 403 \<and>
   codes (next_state (RenderError_steps 4 denied_site (cascade_start (Some NotFound) None))) 402 \<and>
   codes (next_state (RenderError_steps 4 denied_site (cascade_start (Some NotFound) None))) 401 \<and>
   \<not> codes (next_state (RenderError_steps 4 denied_site (cascade_start (Some NotFound) None))) 500 \<and>
   RenderError denied_site (Some NotFound) None =
     Some (Returns (Some ''<html>denied</html>'', Some (Coded 401), None))"
proof -
  have "RenderError denied_site (Some NotFound) None =
      Some (Returns (Some ''<html>denied</html>'', Some (Coded 401), None))"
    unfolding RenderError_def
    by (rule steps_Done_loop [of "Suc (Suc (Suc (Suc (Suc 0))))"])
      (simp add: RenderError_iter_def cascade_start_def ErrorPath_def Itoa_codes
        RenderPage_def denied_site_def site_defs TrimSpace_texts)
  moreover have "\<exists>c. RenderError_steps 4 denied_site (cascade_start (Some NotFound) None) =
      Next \<lparr>err = None, lastErr = Some (Coded 401), bytes = Some ''<html>denied</html>'',
        codes = c, data = None\<rparr> \<and>
      c 404 \<and> c 403 \<and> c 402 \<and> c 401 \<and> \<not> c 500"
    by (simp add: numeral_nat RenderError_iter_def cascade_start_def ErrorPath_def Itoa_codes
        RenderPage_def denied_site_def site_defs TrimSpace_texts)
  ultimately show ?thesis by auto
qed

text \<open>
  The site with a page for every code: a pass on an error of a code above 600, when
  the codes marked are those above that code up to a code \<open>hi\<close>, marks the code and goes
  on with an error of the code below it.
\<close>

lemma layouts_plain: "CHR ''/'' \<notin> set p \<Longrightarrow> layouts p = [[]]"
  by (induction p) auto

lemma countdown_site_path:
  "ErrorPath countdown_site (Coded c) = replicate (nat c) (CHR ''x'')"
  by (simp add: ErrorPath_def countdown_site_def site_def)

lemma countdown_site_page_fails:
  "p \<noteq> [] \<Longrightarrow> 600 < length p \<Longrightarrow>
   RenderPage countdown_site p None = Returns (None, Some (Coded (int (length p) - 1)), None)"
  by (simp add: RenderPage_def countdown_site_def site_defs)

lemma countdown_site_page_renders:
  "p \<noteq> [] \<Longrightarrow> \<not> 600 < length p \<Longrightarrow> CHR ''/'' \<notin> set p \<Longrightarrow>
   RenderPage countdown_site p None = Returns (Some ''<html>ok</html>'', None, None)"
  by (simp add: RenderPage_def countdown_site_def site_defs layouts_plain TrimSpace_ok)

lemma countdown_site_fails:
  assumes "600 < c"
  shows "RenderPage countdown_site (ErrorPath countdown_site (Coded c)) None =
     Returns (None, Some (Coded (c - 1)), None)"
proof -
  let ?p = "replicate (nat c) (CHR ''x'')"
  from assms have "?p \<noteq> []" and "600 < length ?p"
    by simp_all
  then have p: "RenderPage countdown_site ?p None =
      Returns (None, Some (Coded (int (length ?p) - 1)), None)"
    by (rule countdown_site_page_fails)
  from assms have eq: "int (length ?p) - 1 = c - 1"
    by simp
  from p show ?thesis
    by (simp only: countdown_site_path eq)
qed

lemma countdown_site_renders:
  "RenderPage countdown_site (ErrorPath countdown_site (Coded 600)) None =
     Returns (Some ''<html>ok</html>'', None, None)"
proof -
  let ?p = "replicate (nat 600) (CHR ''x'')"
  have "?p \<noteq> []" and "\<not> 600 < length ?p" and "CHR ''/'' \<notin> set ?p"
    by simp_all
  then have "RenderPage countdown_site ?p None = Returns (Some ''<html>ok</html>'', None, None)"
    by (rule countdown_site_page_renders)
  then show ?thesis
    by (simp only: countdown_site_path)
qed

lemma countdown_site_pass:
  assumes "err s = Some (Coded c)" and "600 < c" and "data s = None"
    and "\<forall>c'. codes s c' \<longleftrightarrow> c < c' \<and> c' \<le> hi"
  shows "\<exists>s'. RenderError_iter countdown_site s = Next s' \<and> err s' = Some (Coded (c - 1)) \<and>
           lastErr s' = Some (Coded c) \<and> data s' = None \<and>
           (\<forall>c'. codes s' c' \<longleftrightarrow> c - 1 < c' \<and> c' \<le> hi \<or> c' = c)"
proof -
  let ?s' = "s\<lparr>err := Some (Coded (c - 1)), lastErr := Some (Coded c), bytes := None,
        codes := (codes s)(c := True), data := None\<rparr>"
  have code: "ErrorCode countdown_site (Coded c) = c"
    by (simp add: countdown_site_def site_def)
  from assms(4) have fresh: "\<not> codes s c"
    by simp
  have page: "RenderPage countdown_site (ErrorPath countdown_site (Coded c)) (data s) =
      Returns (None, Some (Coded (c - 1)), None)"
    using countdown_site_fails [OF assms(2)] assms(3) by simp
  have "RenderError_iter countdown_site s = Next ?s'"
    by (simp add: RenderError_iter_def assms(1) code fresh page)
  moreover have "\<forall>c'. codes ?s' c' \<longleftrightarrow> c - 1 < c' \<and> c' \<le> hi \<or> c' = c"
  proof
    fix c'
    from assms(4) have "codes s c' \<longleftrightarrow> c < c' \<and> c' \<le> hi"
      by (rule spec)
    then show "codes ?s' c' \<longleftrightarrow> c - 1 < c' \<and> c' \<le> hi \<or> c' = c"
      by (cases "c' = c") auto
  qed
  moreover have "err ?s' = Some (Coded (c - 1))" "lastErr ?s' = Some (Coded c)" "data ?s' = None"
    by simp_all
  ultimately show ?thesis by blast
qed

lemma countdown_site_passes:
  assumes "err s = Some (Coded (600 + int k))" and "data s = None"
    and "\<forall>c'. codes s c' \<longleftrightarrow> 600 + int k < c' \<and> c' \<le> hi" and "600 + int k \<le> hi"
  shows "\<exists>s'. RenderError_steps k countdown_site s = Next s' \<and> err s' = Some (Coded 600) \<and>
           data s' = None \<and> lastErr s' = (if k = 0 then lastErr s else Some (Coded 601)) \<and>
           (\<forall>c'. codes s' c' \<longleftrightarrow> 600 < c' \<and> c' \<le> hi)"
  using assms
proof (induction k arbitrary: s)
  case 0
  then show ?case by simp
next
  case (Suc k)
  have "600 < 600 + int (Suc k)"
    by simp
  from countdown_site_pass [OF Suc.prems(1) this Suc.prems(2) Suc.prems(3)]
  obtain s1 where s1: "RenderError_iter countdown_site s = Next s1"
    and e1: "err s1 = Some (Coded (600 + int (Suc k) - 1))"
    and l1: "lastErr s1 = Some (Coded (600 + int (Suc k)))" and d1: "data s1 = None"
    and c1: "\<forall>c'. codes s1 c' \<longleftrightarrow>
        600 + int (Suc k) - 1 < c' \<and> c' \<le> hi \<or> c' = 600 + int (Suc k)"
    by blast
  from e1 have e1': "err s1 = Some (Coded (600 + int k))"
    by simp
  from c1 Suc.prems(4) have c1': "\<forall>c'. codes s1 c' \<longleftrightarrow> 600 + int k < c' \<and> c' \<le> hi"
    by auto
  from Suc.prems(4) have "600 + int k \<le> hi"
    by simp
  from Suc.IH [OF e1' d1 c1' this]
  obtain s' where "RenderError_steps k countdown_site s1 = Next s'"
    and "err s' = Some (Coded 600)" and "data s' = None"
    and "lastErr s' = (if k = 0 then lastErr s1 else Some (Coded 601))"
    and "\<forall>c'. codes s' c' \<longleftrightarrow> 600 < c' \<and> c' \<le> hi"
    by blast
  with s1 l1 show ?case
    by (cases k) auto
qed

lemma countdown_site_run:
  "is_Next (RenderError_steps k countdown_site (cascade_start (Some (Coded (600 + int k))) None)) \<and>
   (\<forall>c. codes (next_state (RenderError_steps k countdown_site
          (cascade_start (Some (Coded (600 + int k))) None))) c \<longleftrightarrow>
        600 < c \<and> c \<le> 600 + int k) \<and>
   RenderError countdown_site (Some (Coded (600 + int k))) None =
     Some (Returns (Some ''<html>ok</html>'', Some (Coded 600), None))"
proof -
  let ?s = "cascade_start (Some (Coded (600 + int k))) None :: (fault, unit) cascade"
  have "err ?s = Some (Coded (600 + int k))" "data ?s = None"
    "\<forall>c'. codes ?s c' \<longleftrightarrow> 600 + int k < c' \<and> c' \<le> 600 + int k"
    by (simp_all add: cascade_start_def)
  from countdown_site_passes [OF this]
  obtain s' where steps: "RenderError_steps k countdown_site ?s = Next s'"
    and e: "err s' = Some (Coded 600)" and d: "data s' = None"
    and c: "\<forall>c'. codes s' c' \<longleftrightarrow> 600 < c' \<and> c' \<le> 600 + int k"
    by auto
  have code: "ErrorCode countdown_site (Coded 600) = 600"
    by (simp add: countdown_site_def site_def)
  from c have "\<not> codes s' 600"
    by simp
  with e d countdown_site_renders
  have "RenderError_steps (Suc (Suc 0)) countdown_site s' =
      Done (Returns (Some ''<html>ok</html>'', Some (Coded 600), None))"
    by (simp add: RenderError_iter_def code)
  then have "RenderError_loop countdown_site s' =
      Some (Returns (Some ''<html>ok</html>'', Some (Coded 600), None))"
    by (rule steps_Done_loop)
  with steps_Next_loop [OF steps]
  have "RenderError countdown_site (Some (Coded (600 + int k))) None =
      Some (Returns (Some ''<html>ok</html>'', Some (Coded 600), None))"
    by (simp add: RenderError_def)
  with steps c show ?thesis by simp
qed

text \<open>
  C1, amended. The cascade returns at the latest in the pass that meets the second
  error classified 500: if a pass meets an error classified 500 and goes on, and after
  any number of further passes the current error classifies to 500 again, the next pass
  returns the last-resort bytes with that error, and so does \<^verbatim>\<open>RenderError\<close>. After
  the setup, a pass that meets an error whose code is not marked makes a render attempt
  for that error, with the page of the error and the bag as it is, marks the code and
  goes on. The number of passes is not bounded by a constant: for every \<open>k\<close>, on the
  site with a page for every code, the cascade from an error of the code 600 + \<open>k\<close> has
  not returned after \<open>k\<close> passes, has then marked the \<open>k\<close> codes from 601 to 600 + \<open>k\<close>
  and no other, and does return, with the page of the code 600.
\<close>

theorem RenderError_second_500:
  "(err s = Some e \<and> ErrorCode env e = 500 \<and> RenderError_iter env s = Next s1 \<and>
    RenderError_steps n env s1 = Next s2 \<and> err s2 = Some e2 \<and> ErrorCode env e2 = 500 \<longrightarrow>
      RenderError_iter env s2 = Done (Returns (fallback env, Some e2, data s2)) \<and>
      RenderError_loop env s = Some (Returns (fallback env, Some e2, data s2))) \<and>
   (ready env \<and> err t = Some e3 \<and> \<not> codes t (ErrorCode env e3) \<longrightarrow>
      (\<exists>b e' d'. RenderPage env (ErrorPath env e3) (data t) = Returns (b, e', d') \<and>
         RenderError_iter env t =
           Next (t\<lparr>err := e', lastErr := Some e3, bytes := b,
                   codes := (codes t)(ErrorCode env e3 := True), data := d'\<rparr>))) \<and>
   is_Next (RenderError_steps k countdown_site (cascade_start (Some (Coded (600 + int k))) None)) \<and>
   (\<forall>c. codes (next_state (RenderError_steps k countdown_site
          (cascade_start (Some (Coded (600 + int k))) None))) c \<longleftrightarrow>
        600 < c \<and> c \<le> 600 + int k) \<and>
   RenderError countdown_site (Some (Coded (600 + int k))) None =
     Some (Returns (Some ''<html>ok</html>'', Some (Coded 600), None))"
proof -
  have p1: "err s = Some e \<and> ErrorCode env e = 500 \<and> RenderError_iter env s = Next s1 \<and>
    RenderError_steps n env s1 = Next s2 \<and> err s2 = Some e2 \<and> ErrorCode env e2 = 500 \<longrightarrow>
      RenderError_iter env s2 = Done (Returns (fallback env, Some e2, data s2)) \<and>
      RenderError_loop env s = Some (Returns (fallback env, Some e2, data s2))"
  proof
    assume "err s = Some e \<and> ErrorCode env e = 500 \<and> RenderError_iter env s = Next s1 \<and>
      RenderError_steps n env s1 = Next s2 \<and> err s2 = Some e2 \<and> ErrorCode env e2 = 500"
    then have a1: "err s = Some e" and a2: "ErrorCode env e = 500"
      and a3: "RenderError_iter env s = Next s1" and a4: "RenderError_steps n env s1 = Next s2"
      and a5: "err s2 = Some e2" and a6: "ErrorCode env e2 = 500"
      by simp_all
    from RenderError_iter_codes [OF a3, of 500] a1 a2 have "codes s1 500"
      by simp
    with a4 have "codes s2 500"
      by (rule RenderError_steps_codes)
    with a5 a6 have last: "RenderError_iter env s2 =
        Done (Returns (fallback env, Some e2, data s2))"
      by (rule RenderError_iter_seen_500)
    from a3 a4 have "RenderError_steps (Suc n) env s = Next s2"
      by simp
    then have "RenderError_loop env s = RenderError_loop env s2"
      by (rule steps_Next_loop)
    also from last have "\<dots> = Some (Returns (fallback env, Some e2, data s2))"
      by (subst RenderError_loop.simps) simp
    finally have "RenderError_loop env s = Some (Returns (fallback env, Some e2, data s2))" .
    with last show "RenderError_iter env s2 = Done (Returns (fallback env, Some e2, data s2)) \<and>
        RenderError_loop env s = Some (Returns (fallback env, Some e2, data s2))"
      by (rule conjI)
  qed
  have p2: "ready env \<and> err t = Some e3 \<and> \<not> codes t (ErrorCode env e3) \<longrightarrow>
      (\<exists>b e' d'. RenderPage env (ErrorPath env e3) (data t) = Returns (b, e', d') \<and>
         RenderError_iter env t =
           Next (t\<lparr>err := e', lastErr := Some e3, bytes := b,
                   codes := (codes t)(ErrorCode env e3 := True), data := d'\<rparr>))"
  proof
    assume "ready env \<and> err t = Some e3 \<and> \<not> codes t (ErrorCode env e3)"
    then have b1: "ready env" and b2: "err t = Some e3"
      and b3: "\<not> codes t (ErrorCode env e3)"
      by simp_all
    from b1 obtain b e' d'
      where page: "RenderPage env (ErrorPath env e3) (data t) = Returns (b, e', d')"
      using RenderPage_ready by blast
    have "RenderError_iter env t =
        Next (t\<lparr>err := e', lastErr := Some e3, bytes := b,
                codes := (codes t)(ErrorCode env e3 := True), data := d'\<rparr>)"
      by (simp add: RenderError_iter_def Let_def b2 b3 page)
    with page show "\<exists>b e' d'. RenderPage env (ErrorPath env e3) (data t) = Returns (b, e', d') \<and>
        RenderError_iter env t =
          Next (t\<lparr>err := e', lastErr := Some e3, bytes := b,
                  codes := (codes t)(ErrorCode env e3 := True), data := d'\<rparr>)"
      by blast
  qed
  show ?thesis
    by (rule conjI [OF p1 conjI [OF p2 countdown_site_run]])
qed

text \<open>
  A run: the site has no page for 500 and a page for 404 that fails. The cascade starts
  from an error classified 500, tries the page for 500, then the page for 404, and
  returns the built-in message in its third pass. Its first two passes each meet a code
  that is not marked. And the cascade from the code 603 on the site with a page for
  every code.
\<close>

theorem RenderError_second_500_witness:
  "err (cascade_start (Some Internal) None :: (fault, unit) cascade) = Some Internal \<and>
   ErrorCode broken_site Internal = 500 \<and>
   RenderError_iter broken_site (cascade_start (Some Internal) None) =
     Next \<lparr>err = Some NotFound, lastErr = Some Internal, bytes = None,
           codes = (\<lambda>_. False)(500 := True), data = None\<rparr> \<and>
   RenderError_steps (Suc 0) broken_site
       \<lparr>err = Some NotFound, lastErr = Some Internal, bytes = None,
        codes = (\<lambda>_. False)(500 := True), data = None\<rparr> =
     Next \<lparr>err = Some Internal, lastErr = Some NotFound, bytes = None,
           codes = (\<lambda>_. False)(500 := True, 404 := True), data = None\<rparr> \<and>
   RenderError broken_site (Some Internal) None =
     Some (Returns (Some ''Internal Server Error'', Some Internal, None)) \<and>
   ready broken_site \<and>
   \<not> codes (cascade_start (Some Internal) None :: (fault, unit) cascade)
       (ErrorCode broken_site Internal) \<and>
   RenderPage broken_site (ErrorPath broken_site Internal) None =
     Returns (None, Some NotFound, None) \<and>
   is_Next (RenderError_steps 3 countdown_site (cascade_start (Some (Coded 603)) None)) \<and>
   RenderError countdown_site (Some (Coded 603)) None =
     Some (Returns (Some ''<html>ok</html>'', Some (Coded 600), None))"
proof -
  let ?s0 = "cascade_start (Some Internal) None :: (fault, unit) cascade"
  let ?s1 = "\<lparr>err = Some NotFound, lastErr = Some Internal, bytes = None,
        codes = (\<lambda>_. False)(500 := True), data = None\<rparr> :: (fault, unit) cascade"
  let ?s2 = "\<lparr>err = Some Internal, lastErr = Some NotFound, bytes = None,
        codes = (\<lambda>_. False)(500 := True, 404 := True), data = None\<rparr> :: (fault, unit) cascade"
  have h1: "err ?s0 = Some Internal"
    by (simp add: cascade_start_def)
  have h2: "ErrorCode broken_site Internal = 500"
    by (simp add: broken_site_def site_def)
  have h3: "RenderError_iter broken_site ?s0 = Next ?s1"
    by (simp add: RenderError_iter_def cascade_start_def ErrorPath_def Itoa_codes
        RenderPage_def broken_site_def site_defs)
  have h4: "RenderError_steps (Suc 0) broken_site ?s1 = Next ?s2"
    by (simp add: RenderError_iter_def ErrorPath_def Itoa_codes
        RenderPage_def broken_site_def site_defs)
  have h5: "err ?s2 = Some Internal"
    by simp
  have h6: "ready broken_site"
    by (simp add: broken_site_def site_def)
  have h7: "\<not> codes ?s0 (ErrorCode broken_site Internal)"
    by (simp add: cascade_start_def)
  have page: "RenderPage broken_site (ErrorPath broken_site Internal) None =
      Returns (None, Some NotFound, None)"
    by (simp add: ErrorPath_def Itoa_codes RenderPage_def broken_site_def site_defs)
  have fb: "fallback broken_site = Some ''Internal Server Error''"
    by (simp add: fallback_def len_def string_of_def broken_site_def site_def)
  from RenderError_second_500 [of ?s0 Internal broken_site ?s1 "Suc 0" ?s2 Internal ?s0
      Internal 3]
    h1 h2 h3 h4 h5 h6 h7 page
  show ?thesis
    by (simp add: RenderError_def fb)
qed

subsection \<open>A code that repeats (C2)\<close>

text \<open>
  On the site with a page for 500 and none for 404, a pass of the cascade on the error
  \<open>NotFound\<close> with a nil bag goes on with the error \<open>NotFound\<close> and a nil bag, whatever
  codes are marked: the page it tries is the page of the error, which is missing.
\<close>

lemma oops_site_pass:
  assumes "err s = Some NotFound" and "data s = None"
  shows "\<exists>s'. RenderError_iter oops_site s = Next s' \<and> err s' = Some NotFound \<and>
           data s' = None"
  using assms
  by (simp add: RenderError_iter_def ErrorPath_def Itoa_codes RenderPage_def
      oops_site_def site_defs)

lemma oops_site_passes:
  assumes "err s = Some NotFound" and "data s = None"
  shows "is_Next (RenderError_steps n oops_site s)"
  using assms
proof (induction n arbitrary: s)
  case 0
  show ?case by simp
next
  case (Suc n)
  from oops_site_pass [OF Suc.prems] obtain s'
    where "RenderError_iter oops_site s = Next s'" "err s' = Some NotFound" "data s' = None"
    by blast
  with Suc.IH [of s'] show ?case by simp
qed

text \<open>
  C2: when the code of the current error has been seen and is not 500, the pass marks
  500 and tries the page for 500, not the page of the repeated code. The code marks 500
  and calls \<^verbatim>\<open>RenderPage(ErrorPath(err), data)\<close> with the error it has, so it tries the
  page of the repeated code again. On the site with a page for 500 and none for 404:
  the page for 500 renders; yet after two passes on the error \<open>NotFound\<close> 500 is marked,
  nothing is rendered and the error is \<open>NotFound\<close> again; and the cascade never returns.
\<close>

theorem RenderError_repeated_code:
  "RenderPage oops_site ''500'' None = Returns (Some ''<html>oops</html>'', None, None) \<and>
   is_Next (RenderError_steps 2 oops_site (cascade_start (Some NotFound) None)) \<and>
   err (next_state (RenderError_steps 2 oops_site (cascade_start (Some NotFound) None))) =
     Some NotFound \<and>
   bytes (next_state (RenderError_steps 2 oops_site (cascade_start (Some NotFound) None))) =
     None \<and>
   codes (next_state (RenderError_steps 2 oops_site (cascade_start (Some NotFound) None))) 404 \<and>
   codes (next_state (RenderError_steps 2 oops_site (cascade_start (Some NotFound) None))) 500 \<and>
   RenderError oops_site (Some NotFound) None = None"
proof -
  have "RenderPage oops_site ''500'' None = Returns (Some ''<html>oops</html>'', None, None)"
    by (simp add: RenderPage_def oops_site_def site_defs TrimSpace_texts)
  moreover have "RenderError_steps 2 oops_site (cascade_start (Some NotFound) None) =
      Next \<lparr>err = Some NotFound, lastErr = Some NotFound, bytes = None,
        codes = (\<lambda>_. False)(404 := True, 500 := True), data = None\<rparr>"
    by (simp add: numeral_2_eq_2 RenderError_iter_def cascade_start_def ErrorPath_def
        Itoa_codes RenderPage_def oops_site_def site_defs)
  moreover have "RenderError oops_site (Some NotFound) None = None"
    unfolding RenderError_def
    by (rule loop_None) (simp add: oops_site_passes cascade_start_def)
  ultimately show ?thesis by simp
qed

subsection \<open>What the cascade returns (C3)\<close>

lemma fallback_bytes:
  "\<exists>x. fallback env = Some x \<and> (err500ISE env \<noteq> [] \<longrightarrow> x \<noteq> [])"
  by (cases "UltimateFailure env") (auto simp add: fallback_def len_def string_of_def)

lemma RenderPage_success_bytes:
  "RenderPage env path d = Returns (b, None, d') \<Longrightarrow> \<exists>x. b = Some x"
  by (auto simp add: RenderPage_def Let_def split: if_splits prod.splits option.splits)

text \<open>
  The result of some number of passes, from a state in which an error is pending or the
  bytes are those of a page that rendered.
\<close>

lemma RenderError_steps_result:
  assumes "ready env"
    and "err s = None \<longrightarrow>
      (\<exists>x e' p d0. bytes s = Some x \<and> lastErr s = Some e' \<and>
         RenderPage env p d0 = Returns (Some x, None, data s))"
    and "RenderError_steps n env s = Done r"
  shows "\<exists>x e' d'. r = Returns (Some x, Some e', d') \<and>
     ((fallback env = Some x \<and> ErrorCode env e' = 500) \<or>
      (\<exists>p d0. RenderPage env p d0 = Returns (Some x, None, d')))"
  using assms(2,3)
proof (induction n arbitrary: s)
  case 0
  then show ?case by simp
next
  case (Suc n)
  show ?case
  proof (cases "err s")
    case None
    with Suc.prems show ?thesis
      by (auto simp add: RenderError_iter_def)
  next
    case (Some e)
    show ?thesis
    proof (cases "codes s (ErrorCode env e) \<and> ErrorCode env e = 500")
      case True
      then have c: "codes s 500" "ErrorCode env e = 500"
        by auto
      from Some c(2) c(1)
      have "RenderError_iter env s = Done (Returns (fallback env, Some e, data s))"
        by (rule RenderError_iter_seen_500)
      with Suc.prems(2) have "r = Returns (fallback env, Some e, data s)"
        by simp
      with c fallback_bytes [of env] show ?thesis by auto
    next
      case False
      from assms(1) obtain b1 e1 d1
        where page: "RenderPage env (ErrorPath env e) (data s) = Returns (b1, e1, d1)"
        using RenderPage_ready by blast
      let ?s' = "s\<lparr>err := e1, lastErr := Some e, bytes := b1,
          codes := (codes s)
            ((if codes s (ErrorCode env e) then 500 else ErrorCode env e) := True),
          data := d1\<rparr>"
      from Some False page have it: "RenderError_iter env s = Next ?s'"
        by (simp add: RenderError_iter_def Let_def)
      with Suc.prems(2) have rest: "RenderError_steps n env ?s' = Done r"
        by simp
      have "err ?s' = None \<longrightarrow>
        (\<exists>x e' p d0. bytes ?s' = Some x \<and> lastErr ?s' = Some e' \<and>
           RenderPage env p d0 = Returns (Some x, None, data ?s'))"
      proof
        assume "err ?s' = None"
        then have e1: "e1 = None" by simp
        with page obtain x where "b1 = Some x"
          using RenderPage_success_bytes by blast
        with page e1 show "\<exists>x e' p d0. bytes ?s' = Some x \<and> lastErr ?s' = Some e' \<and>
           RenderPage env p d0 = Returns (Some x, None, data ?s')"
          by auto
      qed
      from this rest show ?thesis by (rule Suc.IH)
    qed
  qed
qed

text \<open>
  C3, as the spec states it: \<^verbatim>\<open>RenderError\<close> returns bytes that are not empty. On the
  site whose page for 404 is empty, under a root layout that prints the content alone,
  the cascade renders that page and returns the empty byte string.
\<close>

theorem RenderError_empty_counterexample:
  "RenderError blank_site (Some NotFound) None = Some (Returns (Some [], Some NotFound, None))"
  unfolding RenderError_def
  by (rule steps_Done_loop [of "Suc (Suc 0)"])
    (simp add: RenderError_iter_def cascade_start_def ErrorPath_def Itoa_codes
      RenderPage_def blank_site_def site_defs TrimSpace_texts)

text \<open>
  When every failure of an error page classifies to 500, three passes are enough: a pass
  that goes on leaves no error or an error classified 500, the first such error marks
  500 and the second ends the loop.
\<close>

lemma RenderError_iter_next_500:
  assumes "\<forall>e0 d0 b e' d1.
      RenderPage env (ErrorPath env e0) d0 = Returns (b, Some e', d1) \<longrightarrow> ErrorCode env e' = 500"
    and "RenderError_iter env s = Next s'"
  shows "err s' = None \<or> (\<exists>x. err s' = Some x \<and> ErrorCode env x = 500)"
proof -
  from assms(2) obtain e where e: "err s = Some e"
    using RenderError_iter_pending by blast
  with assms(2) obtain b1 e1 d1
    where page: "RenderPage env (ErrorPath env e) (data s) = Returns (b1, e1, d1)"
      and e1: "err s' = e1"
    by (auto simp add: RenderError_iter_def Let_def split: if_splits outcome.splits)
  show ?thesis
  proof (cases e1)
    case None
    with e1 show ?thesis by simp
  next
    case (Some x)
    with page have "RenderPage env (ErrorPath env e) (data s) = Returns (b1, Some x, d1)"
      by simp
    with assms(1) have "ErrorCode env x = 500"
      by (elim allE impE) assumption
    with Some e1 show ?thesis by simp
  qed
qed

lemma RenderError_three_passes:
  assumes "\<forall>e0 d0 b e' d1.
      RenderPage env (ErrorPath env e0) d0 = Returns (b, Some e', d1) \<longrightarrow> ErrorCode env e' = 500"
  shows "\<exists>r. RenderError_steps (Suc (Suc (Suc 0))) env s = Done r"
proof (cases "RenderError_iter env s")
  case (Done r)
  then show ?thesis by simp
next
  case s1: (Next s1)
  show ?thesis
  proof (cases "RenderError_iter env s1")
    case (Done r)
    with s1 show ?thesis by simp
  next
    case s2: (Next s2)
    from s2 obtain x where x: "err s1 = Some x"
      using RenderError_iter_pending by blast
    from assms s1 have "err s1 = None \<or> (\<exists>y. err s1 = Some y \<and> ErrorCode env y = 500)"
      by (rule RenderError_iter_next_500)
    with x have "ErrorCode env x = 500"
      by simp
    with x RenderError_iter_codes [OF s2, of 500] have seen: "codes s2 500"
      by simp
    from assms s2 have "err s2 = None \<or> (\<exists>y. err s2 = Some y \<and> ErrorCode env y = 500)"
      by (rule RenderError_iter_next_500)
    then have "\<exists>r. RenderError_iter env s2 = Done r"
    proof
      assume "err s2 = None"
      then show ?thesis by (simp add: RenderError_iter_def)
    next
      assume "\<exists>y. err s2 = Some y \<and> ErrorCode env y = 500"
      then obtain y where "err s2 = Some y" and "ErrorCode env y = 500"
        by blast
      from this seen
      have "RenderError_iter env s2 = Done (Returns (fallback env, Some y, data s2))"
        by (rule RenderError_iter_seen_500)
      then show ?thesis ..
    qed
    then obtain r where "RenderError_iter env s2 = Done r" ..
    with s1 s2 have "RenderError_steps (Suc (Suc (Suc 0))) env s = Done r"
      by simp
    then show ?thesis ..
  qed
qed

text \<open>The pass after an attempt that rendered returns its bytes with the error it was for.\<close>

lemma RenderError_iter_rendered:
  assumes "RenderError_iter env s = Next s'" and "err s' = None"
  shows "RenderError_steps (Suc (Suc 0)) env s = Done (Returns (bytes s', err s, data s'))"
proof -
  from assms(1) obtain e where e: "err s = Some e"
    using RenderError_iter_pending by blast
  with assms(1) have "lastErr s' = Some e"
    by (auto simp add: RenderError_iter_def Let_def split: if_splits outcome.splits)
  with assms e show ?thesis
    by (simp add: RenderError_iter_def)
qed

text \<open>
  C3, amended. After the setup, for an error that is not nil: whenever
  \<^verbatim>\<open>RenderError\<close> returns, it returns without a panic, its bytes are not nil and its
  error is not nil; the bytes are the last-resort bytes, with an error classified 500,
  and these are not empty when the built-in message is not; or they are the bytes of a
  \<^verbatim>\<open>RenderPage\<close> that succeeded, which may be empty. It returns within two passes, the
  bytes of the page with the error it was given, when the page of that error renders.
  It returns as soon as an attempt renders, those bytes with the error of that pass;
  and as soon as a pass meets an error classified 500 with 500 marked, the last-resort
  bytes with that error. It returns within three passes when every failure of an error
  page classifies to 500. For a nil error it returns nil bytes and a nil error.
\<close>

theorem RenderError_result:
  assumes "ready env"
  shows "(\<forall>r. RenderError env (Some e) d = Some r \<longrightarrow>
            (\<exists>x e' d'. r = Returns (Some x, Some e', d') \<and>
               ((fallback env = Some x \<and> ErrorCode env e' = 500 \<and>
                 (err500ISE env \<noteq> [] \<longrightarrow> x \<noteq> [])) \<or>
                (\<exists>p d0. RenderPage env p d0 = Returns (Some x, None, d'))))) \<and>
         (\<forall>x d'. RenderPage env (ErrorPath env e) d = Returns (Some x, None, d') \<longrightarrow>
            RenderError_steps (Suc (Suc 0)) env (cascade_start (Some e) d) =
              Done (Returns (Some x, Some e, d')) \<and>
            RenderError env (Some e) d = Some (Returns (Some x, Some e, d'))) \<and>
         (\<forall>n s s'. RenderError_steps n env (cascade_start (Some e) d) = Next s \<and>
              RenderError_iter env s = Next s' \<and> err s' = None \<longrightarrow>
            RenderError env (Some e) d = Some (Returns (bytes s', err s, data s'))) \<and>
         (\<forall>n s e2. RenderError_steps n env (cascade_start (Some e) d) = Next s \<and>
              err s = Some e2 \<and> ErrorCode env e2 = 500 \<and> codes s 500 \<longrightarrow>
            RenderError env (Some e) d = Some (Returns (fallback env, Some e2, data s))) \<and>
         ((\<forall>e0 d0 b e' d1. RenderPage env (ErrorPath env e0) d0 = Returns (b, Some e', d1) \<longrightarrow>
              ErrorCode env e' = 500) \<longrightarrow>
          (\<exists>r. RenderError_steps (Suc (Suc (Suc 0))) env (cascade_start (Some e) d) = Done r \<and>
             RenderError env (Some e) d = Some r)) \<and>
         RenderError env None d = Some (Returns (None, None, d))"
proof -
  let ?s0 = "cascade_start (Some e) d"
  have p1: "\<forall>r. RenderError env (Some e) d = Some r \<longrightarrow>
      (\<exists>x e' d'. r = Returns (Some x, Some e', d') \<and>
         ((fallback env = Some x \<and> ErrorCode env e' = 500 \<and>
           (err500ISE env \<noteq> [] \<longrightarrow> x \<noteq> [])) \<or>
          (\<exists>p d0. RenderPage env p d0 = Returns (Some x, None, d'))))"
  proof (intro allI impI)
    fix r
    assume "RenderError env (Some e) d = Some r"
    then obtain n where steps: "RenderError_steps n env ?s0 = Done r"
      unfolding RenderError_def using loop_Some_steps by blast
    have start: "err ?s0 = None \<longrightarrow>
        (\<exists>x e' p d0. bytes ?s0 = Some x \<and> lastErr ?s0 = Some e' \<and>
           RenderPage env p d0 = Returns (Some x, None, data ?s0))"
      by (simp add: cascade_start_def)
    from assms start steps
    have "\<exists>x e' d'. r = Returns (Some x, Some e', d') \<and>
       ((fallback env = Some x \<and> ErrorCode env e' = 500) \<or>
        (\<exists>p d0. RenderPage env p d0 = Returns (Some x, None, d')))"
      by (rule RenderError_steps_result)
    with fallback_bytes [of env]
    show "\<exists>x e' d'. r = Returns (Some x, Some e', d') \<and>
       ((fallback env = Some x \<and> ErrorCode env e' = 500 \<and>
         (err500ISE env \<noteq> [] \<longrightarrow> x \<noteq> [])) \<or>
        (\<exists>p d0. RenderPage env p d0 = Returns (Some x, None, d')))"
      by fastforce
  qed
  have p2: "\<forall>x d'. RenderPage env (ErrorPath env e) d = Returns (Some x, None, d') \<longrightarrow>
      RenderError_steps (Suc (Suc 0)) env ?s0 = Done (Returns (Some x, Some e, d')) \<and>
      RenderError env (Some e) d = Some (Returns (Some x, Some e, d'))"
  proof (intro allI impI)
    fix x d'
    assume "RenderPage env (ErrorPath env e) d = Returns (Some x, None, d')"
    then have "RenderError_steps (Suc (Suc 0)) env ?s0 = Done (Returns (Some x, Some e, d'))"
      by (simp add: RenderError_iter_def cascade_start_def)
    moreover from this have "RenderError env (Some e) d = Some (Returns (Some x, Some e, d'))"
      unfolding RenderError_def by (rule steps_Done_loop)
    ultimately show "RenderError_steps (Suc (Suc 0)) env ?s0 =
        Done (Returns (Some x, Some e, d')) \<and>
        RenderError env (Some e) d = Some (Returns (Some x, Some e, d'))"
      by (rule conjI)
  qed
  have p3: "\<forall>n s s'. RenderError_steps n env ?s0 = Next s \<and>
      RenderError_iter env s = Next s' \<and> err s' = None \<longrightarrow>
      RenderError env (Some e) d = Some (Returns (bytes s', err s, data s'))"
  proof (intro allI impI)
    fix n s s'
    assume "RenderError_steps n env ?s0 = Next s \<and>
      RenderError_iter env s = Next s' \<and> err s' = None"
    then have a1: "RenderError_steps n env ?s0 = Next s"
      and a2: "RenderError_iter env s = Next s'" and a3: "err s' = None"
      by simp_all
    from a2 a3
    have "RenderError_steps (Suc (Suc 0)) env s = Done (Returns (bytes s', err s, data s'))"
      by (rule RenderError_iter_rendered)
    then have "RenderError_loop env s = Some (Returns (bytes s', err s, data s'))"
      by (rule steps_Done_loop)
    with steps_Next_loop [OF a1]
    show "RenderError env (Some e) d = Some (Returns (bytes s', err s, data s'))"
      by (simp add: RenderError_def)
  qed
  have p4: "\<forall>n s e2. RenderError_steps n env ?s0 = Next s \<and>
      err s = Some e2 \<and> ErrorCode env e2 = 500 \<and> codes s 500 \<longrightarrow>
      RenderError env (Some e) d = Some (Returns (fallback env, Some e2, data s))"
  proof (intro allI impI)
    fix n s e2
    assume "RenderError_steps n env ?s0 = Next s \<and>
      err s = Some e2 \<and> ErrorCode env e2 = 500 \<and> codes s 500"
    then have a1: "RenderError_steps n env ?s0 = Next s"
      and a2: "err s = Some e2" and a3: "ErrorCode env e2 = 500" and a4: "codes s 500"
      by simp_all
    from a2 a3 a4
    have "RenderError_iter env s = Done (Returns (fallback env, Some e2, data s))"
      by (rule RenderError_iter_seen_500)
    then have "RenderError_steps (Suc 0) env s = Done (Returns (fallback env, Some e2, data s))"
      by simp
    then have "RenderError_loop env s = Some (Returns (fallback env, Some e2, data s))"
      by (rule steps_Done_loop)
    with steps_Next_loop [OF a1]
    show "RenderError env (Some e) d = Some (Returns (fallback env, Some e2, data s))"
      by (simp add: RenderError_def)
  qed
  have p5: "(\<forall>e0 d0 b e' d1. RenderPage env (ErrorPath env e0) d0 = Returns (b, Some e', d1) \<longrightarrow>
      ErrorCode env e' = 500) \<longrightarrow>
    (\<exists>r. RenderError_steps (Suc (Suc (Suc 0))) env ?s0 = Done r \<and>
       RenderError env (Some e) d = Some r)"
  proof
    assume "\<forall>e0 d0 b e' d1. RenderPage env (ErrorPath env e0) d0 = Returns (b, Some e', d1) \<longrightarrow>
      ErrorCode env e' = 500"
    then obtain r where r: "RenderError_steps (Suc (Suc (Suc 0))) env ?s0 = Done r"
      using RenderError_three_passes by blast
    then have "RenderError env (Some e) d = Some r"
      unfolding RenderError_def by (rule steps_Done_loop)
    with r show "\<exists>r. RenderError_steps (Suc (Suc (Suc 0))) env ?s0 = Done r \<and>
        RenderError env (Some e) d = Some r"
      by blast
  qed
  have p6: "RenderError env None d = Some (Returns (None, None, d))"
    unfolding RenderError_def
    by (subst RenderError_loop.simps) (simp add: RenderError_iter_def cascade_start_def)
  show ?thesis
    by (rule conjI [OF p1 conjI [OF p2 conjI [OF p3 conjI [OF p4 conjI [OF p5 p6]]]]])
qed

text \<open>
  Two runs. On the site whose page for 500 shows the content, the page of the error
  renders, and the cascade returns it in its second pass. On the site where every code
  is sent to the one error page, which fails when it runs, the cascade tries it for the
  404, tries it again for the 500 that this gives, and returns the built-in message on
  the second 500, in its third pass.
\<close>

theorem RenderError_result_witness:
  "ready docs_site \<and>
   RenderPage docs_site (ErrorPath docs_site Internal) None =
     Returns (Some ''<html>[]</html>'', None, None) \<and>
   RenderError docs_site (Some Internal) None =
     Some (Returns (Some ''<html>[]</html>'', Some Internal, None)) \<and>
   RenderError docs_site None None = Some (Returns (None, None, None)) \<and>
   ready errors_site \<and>
   (\<forall>e0 d0. RenderPage errors_site (ErrorPath errors_site e0) d0 =
      Returns (None, Some Internal, d0)) \<and>
   ErrorCode errors_site Internal = 500 \<and>
   RenderError_steps (Suc (Suc 0)) errors_site (cascade_start (Some NotFound) None) =
     Next \<lparr>err = Some Internal, lastErr = Some Internal, bytes = None,
           codes = (\<lambda>_. False)(404 := True, 500 := True), data = None\<rparr> \<and>
   RenderError errors_site (Some NotFound) None =
     Some (Returns (Some ''Internal Server Error'', Some Internal, None)) \<and>
   fallback errors_site = Some ''Internal Server Error''"
proof -
  have drdy: "ready docs_site"
    by (simp add: docs_site_def site_def)
  have dpage: "RenderPage docs_site (ErrorPath docs_site Internal) None =
      Returns (Some ''<html>[]</html>'', None, None)"
    by (simp add: ErrorPath_def Itoa_codes RenderPage_def docs_site_def site_defs
        TrimSpace_texts)
  note d = RenderError_result [OF drdy, of Internal None]
  from d [THEN conjunct2, THEN conjunct1, rule_format, OF dpage, THEN conjunct2]
  have drun: "RenderError docs_site (Some Internal) None =
      Some (Returns (Some ''<html>[]</html>'', Some Internal, None))" .
  from d [THEN conjunct2, THEN conjunct2, THEN conjunct2, THEN conjunct2, THEN conjunct2]
  have dnil: "RenderError docs_site None None = Some (Returns (None, None, None))" .
  have rdy: "ready errors_site"
    by (simp add: errors_site_def site_def)
  have path: "\<And>e0. ErrorPath errors_site e0 = ''error''"
    by (simp add: ErrorPath_def errors_site_def site_def)
  have page: "\<And>d0. RenderPage errors_site ''error'' d0 = Returns (None, Some Internal, d0)"
  proof -
    fix d0 :: "unit bag option"
    show "RenderPage errors_site ''error'' d0 = Returns (None, Some Internal, d0)"
      by (cases d0) (simp_all add: RenderPage_def errors_site_def site_defs)
  qed
  have code: "ErrorCode errors_site Internal = 500" "ErrorCode errors_site NotFound = 404"
    by (simp_all add: errors_site_def site_def)
  have fb: "fallback errors_site = Some ''Internal Server Error''"
    by (simp add: fallback_def len_def string_of_def errors_site_def site_def)
  have two: "RenderError_steps (Suc (Suc 0)) errors_site (cascade_start (Some NotFound) None) =
      Next \<lparr>err = Some Internal, lastErr = Some Internal, bytes = None,
            codes = (\<lambda>_. False)(404 := True, 500 := True), data = None\<rparr>"
    by (simp add: RenderError_iter_def cascade_start_def path page code)
  let ?s2 = "\<lparr>err = Some Internal, lastErr = Some Internal, bytes = None,
      codes = (\<lambda>_. False)(404 := True, 500 := True), data = None\<rparr> :: (fault, unit) cascade"
  have s2: "err ?s2 = Some Internal \<and> ErrorCode errors_site Internal = 500 \<and> codes ?s2 500"
    by (simp add: code)
  note r = RenderError_result [OF rdy, of NotFound None]
  from r [THEN conjunct2, THEN conjunct2, THEN conjunct2, THEN conjunct1, rule_format,
      OF conjI [OF two s2]]
  have "RenderError errors_site (Some NotFound) None =
      Some (Returns (fallback errors_site, Some Internal, data ?s2))" .
  then have run: "RenderError errors_site (Some NotFound) None =
      Some (Returns (Some ''Internal Server Error'', Some Internal, None))"
    by (simp add: fb)
  have pages: "\<forall>e0 d0. RenderPage errors_site (ErrorPath errors_site e0) d0 =
      Returns (None, Some Internal, d0)"
    by (simp add: path page)
  from drdy dpage drun dnil rdy pages code(1) two run fb show ?thesis
    by (intro conjI)
qed

end
